theory Spec2Isabelle
  imports Main "HOL-Library.AList" "HOL-Library.Sublist"
begin

text \<open>
  A model of \<open>scripts/update_readme.py\<close>, the script that regenerates the project badges of
  \<open>README.md\<close> from \<open>projects.json\<close> and makes sure that the repositories the entries name
  exist. Each function of the script is a function here, under its own name; what the
  script reads (the two files, the environment, the answers of the server) is a record
  \<open>world\<close>, and what it does (its output, its requests, the document it writes, how it
  ends) is the value of \<open>main\<close>.
\<close>

section \<open>Text\<close>

text \<open>
  A Python \<open>str\<close> is modelled as a \<^typ>\<open>string\<close>: a list of characters, each one a code
  point in the range 0..255. Code points beyond U+00FF are outside the model.
\<close>

definition backslash :: char where
  "backslash = CHR 0x5C"

definition newline :: char where
  "newline = CHR 0x0A"

text \<open>
  The characters for which \<open>str.isspace\<close> holds, which are also the ones \<open>str.strip\<close>
  removes and the ones \<open>\s\<close> matches in a \<open>str\<close> pattern.
\<close>

definition is_space :: "char \<Rightarrow> bool" where
  "is_space c = (of_char c \<in> {9, 10, 11, 12, 13, 28, 29, 30, 31, 32, 133, 160 :: nat})"

definition is_digit :: "char \<Rightarrow> bool" where
  "is_digit c = (48 \<le> (of_char c :: nat) \<and> (of_char c :: nat) \<le> 57)"

definition is_octdigit :: "char \<Rightarrow> bool" where
  "is_octdigit c = (48 \<le> (of_char c :: nat) \<and> (of_char c :: nat) \<le> 55)"

definition is_ascii_letter :: "char \<Rightarrow> bool" where
  "is_ascii_letter c =
     ((65 \<le> (of_char c :: nat) \<and> (of_char c :: nat) \<le> 90) \<or>
      (97 \<le> (of_char c :: nat) \<and> (of_char c :: nat) \<le> 122))"

definition digit_value :: "char \<Rightarrow> nat" where
  "digit_value c = of_char c - 48"

text \<open>\<open>s.startswith(p)\<close>, returning what follows the prefix.\<close>

fun strip_prefix :: "string \<Rightarrow> string \<Rightarrow> string option" where
  "strip_prefix [] s = Some s"
| "strip_prefix (p # ps) [] = None"
| "strip_prefix (p # ps) (c # cs) = (if p = c then strip_prefix ps cs else None)"

text \<open>
  The leftmost occurrence of a literal in a text: the text before it and the text after it.
  This is what a compiled \<open>re.escape(p)\<close> finds when searched for.
\<close>

fun search_literal :: "string \<Rightarrow> string \<Rightarrow> (string \<times> string) option" where
  "search_literal p [] = (if p = [] then Some ([], []) else None)"
| "search_literal p (c # cs) =
     (case strip_prefix p (c # cs) of
        Some rest \<Rightarrow> Some ([], rest)
      | None \<Rightarrow>
          (case search_literal p cs of
             None \<Rightarrow> None
           | Some (before, rest) \<Rightarrow> Some (c # before, rest)))"

definition count_newlines :: "string \<Rightarrow> nat" where
  "count_newlines s = length (filter (\<lambda>c. c = newline) s)"

definition line_count :: "string \<Rightarrow> nat" where
  "line_count s = Suc (count_newlines s)"

section \<open>Exceptions\<close>

text \<open>
  The exceptions the script meets. \<open>ReTemplateError\<close> stands for what \<open>re\<close> raises on a
  replacement template it cannot expand (\<open>re.error\<close>, or \<open>IndexError\<close> for an unknown
  group name); \<open>HTTPError\<close> carries the status code. \<open>InvalidURL\<close>, \<open>UnicodeEncodeError\<close>
  and \<open>ValueError\<close> are what \<open>http.client\<close> raises for a request it refuses to send;
  \<open>RemoteDisconnected\<close> stands for every exception with which an exchange that has begun
  can end and that is not a \<open>URLError\<close> (\<open>RemoteDisconnected\<close> itself, \<open>BadStatusLine\<close>,
  \<open>ConnectionResetError\<close>, \<open>TimeoutError\<close>, \<open>IncompleteRead\<close>). All of them are subclasses of
  \<open>Exception\<close>; none of the last four is a \<open>URLError\<close>.
\<close>

datatype py_exception =
  AttributeError | TypeError | KeyError | ReTemplateError | HTTPError nat | URLError
| InvalidURL | UnicodeEncodeError | ValueError | RemoteDisconnected

section \<open>Replacement templates of \<open>re.sub\<close>\<close>

text \<open>
  \<open>pattern.sub(replacement, text, count=1)\<close> is called with a string replacement, so \<open>re\<close>
  expands the backslash escapes of the replacement (CPython's \<open>parse_template\<close>, as of
  Python 3.12). The pattern of \<open>replace_between_markers\<close> has one group; \<open>g0\<close> is the whole
  match and \<open>g1\<close> the text of group 1.
\<close>

fun getuntil :: "char \<Rightarrow> string \<Rightarrow> (string \<times> string) option" where
  "getuntil t [] = None"
| "getuntil t (c # cs) =
     (if c = t then Some ([], cs)
      else (case getuntil t cs of
              None \<Rightarrow> None
            | Some (name, rest) \<Rightarrow> Some (c # name, rest)))"

definition decimal_value :: "string \<Rightarrow> nat" where
  "decimal_value s = foldl (\<lambda>a c. 10 * a + digit_value c) 0 s"

definition octal_value :: "string \<Rightarrow> nat" where
  "octal_value s = foldl (\<lambda>a c. 8 * a + digit_value c) 0 s"

text \<open>The table \<open>ESCAPES\<close> of the template parser.\<close>

definition simple_escape :: "char \<Rightarrow> char option" where
  "simple_escape d =
     (if d = CHR ''a'' then Some (CHR 0x07)
      else if d = CHR ''b'' then Some (CHR 0x08)
      else if d = CHR ''f'' then Some (CHR 0x0C)
      else if d = CHR ''n'' then Some (CHR 0x0A)
      else if d = CHR ''r'' then Some (CHR 0x0D)
      else if d = CHR ''t'' then Some (CHR 0x09)
      else if d = CHR ''v'' then Some (CHR 0x0B)
      else if d = backslash then Some backslash
      else None)"

text \<open>
  One template item at the head of \<open>d # ds\<close>, the text after a backslash: the text it
  expands to and the rest of the template, or the error.
\<close>

definition group_text :: "string \<Rightarrow> string \<Rightarrow> nat \<Rightarrow> py_exception + string" where
  "group_text g0 g1 i = (if i = 0 then Inr g0 else if i = 1 then Inr g1 else Inl ReTemplateError)"

definition escape_item ::
  "string \<Rightarrow> string \<Rightarrow> char \<Rightarrow> string \<Rightarrow> py_exception + (string \<times> string)" where
  "escape_item g0 g1 d ds =
     (if d = CHR ''g'' then
        (case ds of
           [] \<Rightarrow> Inl ReTemplateError
         | l # r \<Rightarrow>
             if l \<noteq> CHR ''<'' then Inl ReTemplateError
             else (case getuntil (CHR ''>'') r of
                     None \<Rightarrow> Inl ReTemplateError
                   | Some (name, rest) \<Rightarrow>
                       if name = [] \<or> \<not> list_all is_digit name then Inl ReTemplateError
                       else (case group_text g0 g1 (decimal_value name) of
                               Inl e \<Rightarrow> Inl e
                             | Inr t \<Rightarrow> Inr (t, rest))))
      else if d = CHR ''0'' then
        (let n1 = (if ds \<noteq> [] \<and> is_octdigit (hd ds) then 1 else 0 :: nat);
             n2 = (if n1 = 1 \<and> tl ds \<noteq> [] \<and> is_octdigit (hd (tl ds)) then 2 else n1)
         in Inr ([char_of (octal_value (take n2 ds) mod 256)], drop n2 ds))
      else if is_digit d then
        (if ds \<noteq> [] \<and> is_digit (hd ds) then
           (if is_octdigit d \<and> is_octdigit (hd ds) \<and> tl ds \<noteq> [] \<and> is_octdigit (hd (tl ds)) then
              (let v = octal_value (d # take 2 ds)
               in if v > 255 then Inl ReTemplateError else Inr ([char_of v], drop 2 ds))
            else (case group_text g0 g1 (decimal_value [d, hd ds]) of
                    Inl e \<Rightarrow> Inl e
                  | Inr t \<Rightarrow> Inr (t, tl ds)))
         else (case group_text g0 g1 (decimal_value [d]) of
                 Inl e \<Rightarrow> Inl e
               | Inr t \<Rightarrow> Inr (t, ds)))
      else (case simple_escape d of
              Some c \<Rightarrow> Inr ([c], ds)
            | None \<Rightarrow> if is_ascii_letter d then Inl ReTemplateError else Inr ([backslash, d], ds)))"

lemma getuntil_length: "getuntil t s = Some (name, rest) \<Longrightarrow> length rest < length s"
  by (induction s arbitrary: name rest) (auto split: if_splits option.splits)

lemma escape_item_length:
  "escape_item g0 g1 d ds = Inr (t, rest) \<Longrightarrow> length rest \<le> length ds"
  by (auto simp: escape_item_def Let_def split: if_splits list.splits option.splits sum.splits
      dest: getuntil_length)

function expand_template :: "string \<Rightarrow> string \<Rightarrow> string \<Rightarrow> py_exception + string" where
  "expand_template g0 g1 [] = Inr []"
| "expand_template g0 g1 (c # cs) =
     (if c \<noteq> backslash then
        (case expand_template g0 g1 cs of Inl e \<Rightarrow> Inl e | Inr out \<Rightarrow> Inr (c # out))
      else
        (case cs of
           [] \<Rightarrow> Inl ReTemplateError
         | d # ds \<Rightarrow>
             (case escape_item g0 g1 d ds of
                Inl e \<Rightarrow> Inl e
              | Inr item \<Rightarrow>
                  (case expand_template g0 g1 (snd item) of
                     Inl e \<Rightarrow> Inl e
                   | Inr out \<Rightarrow> Inr (fst item @ out)))))"
  by pat_completeness auto
termination
proof (relation "measure (\<lambda>(g0, g1, t). length t)")
  show "wf (measure (\<lambda>(g0, g1, t). length t))"
    by simp
next
  fix g0 g1 :: string and c :: char and cs :: string
  assume "c \<noteq> backslash"
  then show "((g0, g1, cs), g0, g1, c # cs) \<in> measure (\<lambda>(g0, g1, t). length t)"
    by simp
next
  fix g0 g1 :: string and c d :: char and cs ds :: string and item :: "string \<times> string"
  assume "cs = d # ds" and "escape_item g0 g1 d ds = Inr item"
  then show "((g0, g1, snd item), g0, g1, c # cs) \<in> measure (\<lambda>(g0, g1, t). length t)"
    using escape_item_length [of g0 g1 d ds "fst item" "snd item"] by simp
qed

section \<open>The marker replacer\<close>

definition start_marker :: "string \<Rightarrow> string" where
  "start_marker marker_key = ''<!-- PROJECTS:'' @ marker_key @ '':START -->''"

definition end_marker :: "string \<Rightarrow> string" where
  "end_marker marker_key = ''<!-- PROJECTS:'' @ marker_key @ '':END -->''"

text \<open>
  A search for \<open>re.escape(start) + "(.*?)" + re.escape(end)\<close> with \<open>DOTALL\<close>: the leftmost
  start literal that has an end literal after it, and the nearest such end. The result is
  the text before the match, the text of group 1 and the text after the match.
\<close>

definition pattern_search :: "string \<Rightarrow> string \<Rightarrow> string \<Rightarrow> (string \<times> string \<times> string) option" where
  "pattern_search start end readme_text =
     (case search_literal start readme_text of
        None \<Rightarrow> None
      | Some (before, rest) \<Rightarrow>
          (case search_literal end rest of
             None \<Rightarrow> None
           | Some (inner, after) \<Rightarrow> Some (before, inner, after)))"

definition replace_between_markers :: "string \<Rightarrow> string \<Rightarrow> string \<Rightarrow> py_exception + string" where
  "replace_between_markers readme_text marker_key inner_text =
     (let start = start_marker marker_key;
          end = end_marker marker_key
      in case pattern_search start end readme_text of
           None \<Rightarrow> Inr readme_text
         | Some (before, old, after) \<Rightarrow>
             (case expand_template (start @ old @ end) old (start @ inner_text @ end) of
                Inl e \<Rightarrow> Inl e
              | Inr replacement \<Rightarrow> Inr (before @ replacement @ after)))"

section \<open>The marker scanner\<close>

text \<open>
  \<open>MARKER_PAIR_RE\<close> is
  \<open>(<!--\s*PROJECTS:([A-Za-z0-9\+\-]+):START\s*-->)(.*?)(<!--\s*PROJECTS:\2:END\s*-->)\<close>
  with \<open>DOTALL\<close>. No character of a class is the first character of what follows the
  class, so each greedy repetition takes the longest run and the match at a position is
  unique: the start sentinel, then the nearest end sentinel that carries the same key.
\<close>

definition is_key_char :: "char \<Rightarrow> bool" where
  "is_key_char c = (is_ascii_letter c \<or> is_digit c \<or> c = CHR ''+'' \<or> c = CHR ''-'')"

definition match_start_sentinel :: "string \<Rightarrow> (string \<times> string) option" where
  "match_start_sentinel text =
     (case strip_prefix ''<!--'' text of
        None \<Rightarrow> None
      | Some r1 \<Rightarrow>
          (case strip_prefix ''PROJECTS:'' (dropWhile is_space r1) of
             None \<Rightarrow> None
           | Some r2 \<Rightarrow>
               if takeWhile is_key_char r2 = [] then None
               else (case strip_prefix '':START'' (dropWhile is_key_char r2) of
                       None \<Rightarrow> None
                     | Some r3 \<Rightarrow>
                         (case strip_prefix ''-->'' (dropWhile is_space r3) of
                            None \<Rightarrow> None
                          | Some rest \<Rightarrow> Some (takeWhile is_key_char r2, rest)))))"

definition match_end_sentinel :: "string \<Rightarrow> string \<Rightarrow> string option" where
  "match_end_sentinel key text =
     (case strip_prefix ''<!--'' text of
        None \<Rightarrow> None
      | Some r1 \<Rightarrow>
          (case strip_prefix (''PROJECTS:'' @ key @ '':END'') (dropWhile is_space r1) of
             None \<Rightarrow> None
           | Some r2 \<Rightarrow> strip_prefix ''-->'' (dropWhile is_space r2)))"

text \<open>The lazy \<open>(.*?)\<close>: the nearest position at which the end sentinel matches.\<close>

fun search_end_sentinel :: "string \<Rightarrow> string \<Rightarrow> string option" where
  "search_end_sentinel key [] = None"
| "search_end_sentinel key (c # cs) =
     (case match_end_sentinel key (c # cs) of
        Some rest \<Rightarrow> Some rest
      | None \<Rightarrow> search_end_sentinel key cs)"

text \<open>A match of the whole pattern at the head of the text: its key and the text after it.\<close>

definition match_marker_pair :: "string \<Rightarrow> (string \<times> string) option" where
  "match_marker_pair text =
     (case match_start_sentinel text of
        None \<Rightarrow> None
      | Some (key, r) \<Rightarrow>
          (case search_end_sentinel key r of
             None \<Rightarrow> None
           | Some rest \<Rightarrow> Some (key, rest)))"

lemma strip_prefix_eq:
  "strip_prefix p s = (if take (length p) s = p then Some (drop (length p) s) else None)"
  by (induction p s rule: strip_prefix.induct) auto

lemma strip_prefix_length: "strip_prefix p s = Some r \<Longrightarrow> length r + length p = length s"
  by (induction p s rule: strip_prefix.induct) (auto split: if_splits)

lemma match_start_sentinel_length:
  assumes "match_start_sentinel text = Some (key, rest)"
  shows "length rest < length text"
proof -
  from assms obtain r1 r2 r3 where
    a: "strip_prefix ''<!--'' text = Some r1" and
    b: "strip_prefix ''PROJECTS:'' (dropWhile is_space r1) = Some r2" and
    c: "strip_prefix '':START'' (dropWhile is_key_char r2) = Some r3" and
    d: "strip_prefix ''-->'' (dropWhile is_space r3) = Some rest"
    by (auto simp: match_start_sentinel_def split: option.splits if_splits)
  have "length rest \<le> length r3"
    using strip_prefix_length [OF d] length_dropWhile_le [of is_space r3] by simp
  also have "\<dots> \<le> length r2"
    using strip_prefix_length [OF c] length_dropWhile_le [of is_key_char r2] by simp
  also have "\<dots> \<le> length r1"
    using strip_prefix_length [OF b] length_dropWhile_le [of is_space r1] by simp
  also have "\<dots> < length text"
    using strip_prefix_length [OF a] by simp
  finally show ?thesis .
qed

lemma match_end_sentinel_length:
  assumes "match_end_sentinel key text = Some rest"
  shows "length rest < length text"
proof -
  from assms obtain r1 r2 where
    a: "strip_prefix ''<!--'' text = Some r1" and
    b: "strip_prefix (''PROJECTS:'' @ key @ '':END'') (dropWhile is_space r1) = Some r2" and
    c: "strip_prefix ''-->'' (dropWhile is_space r2) = Some rest"
    by (auto simp: match_end_sentinel_def split: option.splits)
  have "length rest \<le> length r2"
    using strip_prefix_length [OF c] length_dropWhile_le [of is_space r2] by simp
  also have "\<dots> \<le> length r1"
    using strip_prefix_length [OF b] length_dropWhile_le [of is_space r1] by simp
  also have "\<dots> < length text"
    using strip_prefix_length [OF a] by simp
  finally show ?thesis .
qed

lemma search_end_sentinel_length:
  "search_end_sentinel key text = Some rest \<Longrightarrow> length rest < length text"
proof (induction "text")
  case Nil
  then show ?case by simp
next
  case (Cons c cs)
  show ?case
  proof (cases "match_end_sentinel key (c # cs)")
    case None
    with Cons show ?thesis by fastforce
  next
    case (Some r)
    with Cons.prems match_end_sentinel_length [of key "c # cs" r] show ?thesis by simp
  qed
qed

lemma match_marker_pair_length:
  assumes "match_marker_pair text = Some (key, rest)"
  shows "length rest < length text"
proof -
  from assms obtain r where
    a: "match_start_sentinel text = Some (key, r)" and
    b: "search_end_sentinel key r = Some rest"
    by (auto simp: match_marker_pair_def split: option.splits)
  from match_start_sentinel_length [OF a] search_end_sentinel_length [OF b]
  show ?thesis by simp
qed

text \<open>
  \<open>MARKER_PAIR_RE.findall\<close>: the matches from left to right, each search resuming where
  the last match ended. Of the four groups of a match the script reads the key only.
\<close>

function findall_keys :: "string \<Rightarrow> string list" where
  "findall_keys text =
     (case text of
        [] \<Rightarrow> []
      | c # cs \<Rightarrow>
          (case match_marker_pair text of
             Some found \<Rightarrow> fst found # findall_keys (snd found)
           | None \<Rightarrow> findall_keys cs))"
  by pat_completeness auto
termination
proof (relation "measure length")
  show "wf (measure length)"
    by simp
next
  fix s :: string and c :: char and cs :: string and found :: "string \<times> string"
  assume "s = c # cs" and "match_marker_pair s = Some found"
  then show "(snd found, s) \<in> measure length"
    using match_marker_pair_length [of s "fst found" "snd found"] by simp
next
  fix s :: string and c :: char and cs :: string
  assume "s = c # cs"
  then show "(cs, s) \<in> measure length"
    by simp
qed

declare findall_keys.simps [simp del]

text \<open>
  A Python set of keys is kept as a list without repetition, in the order of insertion;
  the order in which Python iterates over the set is a parameter of \<open>main\<close>.
\<close>

definition set_add :: "'a list \<Rightarrow> 'a \<Rightarrow> 'a list" where
  "set_add keys key = (if key \<in> set keys then keys else keys @ [key])"

definition collect_readme_marker_keys :: "string \<Rightarrow> string list" where
  "collect_readme_marker_keys readme_text = foldl set_add [] (findall_keys readme_text)"

section \<open>JSON values\<close>

text \<open>
  What \<open>json.load\<close> returns: \<open>None\<close>, a \<open>bool\<close>, an \<open>int\<close>, a \<open>str\<close>, a \<open>list\<close> or a
  \<open>dict\<close>, the last as its items in insertion order, each key once. Numbers with a
  fraction or an exponent (Python floats) are outside the model.
\<close>

datatype json =
  JNull | JBool bool | JInt int | JStr string | JList "json list" | JDict "(string \<times> json) list"

text \<open>The truth value Python gives a value in \<open>not x\<close>.\<close>

fun truthy :: "json \<Rightarrow> bool" where
  "truthy JNull = False"
| "truthy (JBool b) = b"
| "truthy (JInt i) = (i \<noteq> 0)"
| "truthy (JStr s) = (s \<noteq> [])"
| "truthy (JList xs) = (xs \<noteq> [])"
| "truthy (JDict kvs) = (kvs \<noteq> [])"

text \<open>\<open>item.get(key)\<close>: only a \<open>dict\<close> has the method; a missing key gives \<open>None\<close>.\<close>

fun item_get :: "json \<Rightarrow> string \<Rightarrow> py_exception + json" where
  "item_get (JDict kvs) key = Inr (case map_of kvs key of None \<Rightarrow> JNull | Some v \<Rightarrow> v)"
| "item_get item key = Inl AttributeError"

text \<open>Lists and dicts cannot be hashed, so they cannot be looked up in a set.\<close>

fun hashable :: "json \<Rightarrow> bool" where
  "hashable (JList xs) = False"
| "hashable (JDict kvs) = False"
| "hashable v = True"

text \<open>
  Python's \<open>==\<close> on hashable values: \<open>True\<close> and \<open>False\<close> are the integers 1 and 0, and
  values of different kinds are otherwise unequal.
\<close>

fun eq_key :: "json \<Rightarrow> json" where
  "eq_key (JBool b) = JInt (if b then 1 else 0)"
| "eq_key v = v"

definition py_eq :: "json \<Rightarrow> json \<Rightarrow> bool" where
  "py_eq a b = (eq_key a = eq_key b)"

definition digit_char :: "nat \<Rightarrow> char" where
  "digit_char n = ''0123456789'' ! (n mod 10)"

function string_of_nat :: "nat \<Rightarrow> string" where
  "string_of_nat n = (if n < 10 then [digit_char n] else string_of_nat (n div 10) @ [digit_char n])"
  by pat_completeness auto
termination
  by (relation "measure id") auto

text \<open>
  \<open>str(x)\<close>, which is also what an f-string puts for \<open>{x}\<close>. The text Python prints for a
  list or a dict is not modelled: it is the parameter \<open>repr\<close>.
\<close>

fun py_str :: "(json \<Rightarrow> string) \<Rightarrow> json \<Rightarrow> string" where
  "py_str repr JNull = ''None''"
| "py_str repr (JBool b) = (if b then ''True'' else ''False'')"
| "py_str repr (JInt i) =
     (if i < 0 then CHR ''-'' # string_of_nat (nat (- i)) else string_of_nat (nat i))"
| "py_str repr (JStr s) = s"
| "py_str repr v = repr v"

section \<open>Language normalization\<close>

definition strip :: "string \<Rightarrow> string" where
  "strip s = rev (dropWhile is_space (rev (dropWhile is_space s)))"

definition lower_char :: "char \<Rightarrow> char" where
  "lower_char c =
     (let n = of_char c :: nat
      in if (65 \<le> n \<and> n \<le> 90) \<or> (192 \<le> n \<and> n \<le> 222 \<and> n \<noteq> 215)
         then char_of (n + 32) else c)"

definition lower :: "string \<Rightarrow> string" where
  "lower s = map lower_char s"

definition LANG_MAP :: "(string \<times> string \<times> string) list" where
  "LANG_MAP =
     [(''c'', ''C'', ''C''),
      (''c++'', ''C++'', ''cpp''),
      (''cpp'', ''C++'', ''cpp''),
      (''python'', ''Python'', ''python''),
      (''py'', ''Python'', ''python''),
      (''typescript'', ''TypeScript'', ''typescript''),
      (''ts'', ''TypeScript'', ''typescript''),
      (''shell'', ''Shell'', ''shell''),
      (''bash'', ''Shell'', ''shell''),
      (''sh'', ''Shell'', ''shell''),
      (''zsh'', ''Shell'', ''shell''),
      (''docker'', ''Docker'', ''docker''),
      (''git'', ''Git'', ''git'')]"

definition normalize_language :: "(json \<Rightarrow> string) \<Rightarrow> json \<Rightarrow> (string \<times> string) option" where
  "normalize_language repr raw =
     (if \<not> truthy raw then None
      else map_of LANG_MAP (lower (strip (py_str repr raw))))"

section \<open>Badges\<close>

text \<open>
  \<open>urllib.parse.quote(s, safe="")\<close>: the text is encoded in UTF-8 and every byte but the
  unreserved characters is written as a percent sign and two upper-case hex digits.
\<close>

definition is_unreserved :: "char \<Rightarrow> bool" where
  "is_unreserved c = (is_ascii_letter c \<or> is_digit c \<or> c \<in> set ''_.-~'')"

definition hex_digit :: "nat \<Rightarrow> char" where
  "hex_digit n = ''0123456789ABCDEF'' ! (n mod 16)"

definition percent_byte :: "nat \<Rightarrow> string" where
  "percent_byte n = [CHR ''%'', hex_digit (n div 16), hex_digit n]"

definition utf8_bytes :: "char \<Rightarrow> nat list" where
  "utf8_bytes c =
     (let n = of_char c :: nat
      in if n < 128 then [n] else [192 + n div 64, 128 + n mod 64])"

definition quote_char :: "char \<Rightarrow> string" where
  "quote_char c = (if is_unreserved c then [c] else concat (map percent_byte (utf8_bytes c)))"

definition quote :: "string \<Rightarrow> string" where
  "quote s = concat (map quote_char s)"

definition build_badge_md :: "(json \<Rightarrow> string) \<Rightarrow> json \<Rightarrow> string \<Rightarrow> json \<Rightarrow> string" where
  "build_badge_md repr name owner repo =
     (let encoded = quote (py_str repr name);
          img = ''https://img.shields.io/static/v1?label=&message='' @ encoded
                @ ''&color=000605&logo=github&logoColor=FFFFFF&labelColor=000605'';
          href = ''https://github.com/'' @ owner @ ''/'' @ py_str repr repo
      in ''[!['' @ py_str repr name @ '']('' @ img @ '')]('' @ href @ '')'')"

section \<open>Output and the hosting API\<close>

datatype stream = Stdout | Stderr

text \<open>
  One constructor for each message the script prints, with the values it formats. Two
  texts that come from outside are left out of the messages that quote them: the reason
  of a \<open>URLError\<close> and the body of an error response.
\<close>

datatype message =
  ProjectsNotFound | ProjectsInvalidJSON | ProjectsNotAList | ReadmeNotFound
| NoMarkersFound | EntryIncomplete nat | LanguageNotMapped json
| GetFailedHTTP string nat | GetFailedURL string
| PostUnexpectedStatus nat | CreateReturned422 json | PostFailedHTTP nat | PostFailedURL
| CreatedRepository string json | CouldNotCreate string json | PatNotSet
| ReadmeUpdated | NoChanges

text \<open>
  A request as the script builds it: the URL, the token and, for a creation, the \<open>name\<close>
  of the JSON body (its other fields are constants, and \<open>json.dumps\<close> writes every value
  \<open>json.load\<close> can return). The \<open>Authorization\<close> header is the only header that varies;
  \<open>github_repo_exists\<close> leaves it empty for an empty token.
\<close>

datatype request = Get string string | Post string string json

fun request_url :: "request \<Rightarrow> string" where
  "request_url (Get url token) = url"
| "request_url (Post url token name) = url"

fun authorization :: "request \<Rightarrow> string" where
  "authorization (Get url token) = (if token \<noteq> [] then ''token '' @ token else [])"
| "authorization (Post url token name) = ''token '' @ token"

text \<open>
  What \<open>urllib.request.Request\<close> asks the server for. The URL is stripped of surrounding
  white space (\<open>unwrap\<close>), cut at its last \<open>#\<close> (\<open>_splittag\<close>), and what follows the scheme
  and the host is the selector (\<open>_splittype\<close>, \<open>_splithost\<close>). Both URLs of the script start
  with \<open>https://api.github.com/\<close>, so they have a scheme and a host.
\<close>

definition splittag :: "string \<Rightarrow> string" where
  "splittag url =
     (if CHR ''#'' \<in> set url then rev (tl (dropWhile (\<lambda>c. c \<noteq> CHR ''#'') (rev url))) else url)"

definition selector :: "string \<Rightarrow> string" where
  "selector url =
     (let full = splittag (strip url);
          rest = drop 1 (dropWhile (\<lambda>c. c \<notin> set ''/:'') full);
          path = dropWhile (\<lambda>c. c \<notin> set ''/#?'') (drop 2 rest)
      in if path \<noteq> [] \<and> hd path \<noteq> CHR ''/'' then CHR ''/'' # path else path)"

text \<open>
  What \<open>http.client\<close> (as of Python 3.11) checks before it opens the connection.
  \<open>putrequest\<close> raises
  \<open>InvalidURL\<close> for a selector with a character in \<open>[\x00-\x20\x7f]\<close> and encodes the
  request line in ASCII; \<open>putheader\<close> raises \<open>ValueError\<close> for a header value with a line
  break that no space or tab follows (\<open>\n(?![ \t])|\r(?![ \t\n])\<close>).
\<close>

definition disallowed_url_char :: "char \<Rightarrow> bool" where
  "disallowed_url_char c = ((of_char c :: nat) \<le> 32 \<or> (of_char c :: nat) = 127)"

definition is_ascii :: "char \<Rightarrow> bool" where
  "is_ascii c = ((of_char c :: nat) < 128)"

fun illegal_header_value :: "string \<Rightarrow> bool" where
  "illegal_header_value [] = False"
| "illegal_header_value (c # cs) =
     ((c = CHR 0x0A \<and> (cs = [] \<or> hd cs \<notin> set [CHR 0x20, CHR 0x09])) \<or>
      (c = CHR 0x0D \<and> (cs = [] \<or> hd cs \<notin> set [CHR 0x20, CHR 0x09, CHR 0x0A])) \<or>
      illegal_header_value cs)"

definition refused :: "request \<Rightarrow> py_exception option" where
  "refused req =
     (let target = selector (request_url req)
      in if list_ex disallowed_url_char target then Some InvalidURL
         else if \<not> list_all is_ascii target then Some UnicodeEncodeError
         else if illegal_header_value (authorization req) then Some ValueError
         else None)"

text \<open>What a run does to the world besides the document: its requests and its output.\<close>

record effects =
  requests :: "request list"
  printed :: "(stream \<times> message) list"

definition no_effects :: effects where
  "no_effects = \<lparr>requests = [], printed = []\<rparr>"

definition print :: "message \<Rightarrow> effects \<Rightarrow> effects" where
  "print m fx = fx\<lparr>printed := printed fx @ [(Stdout, m)]\<rparr>"

definition eprint :: "message \<Rightarrow> effects \<Rightarrow> effects" where
  "eprint m fx = fx\<lparr>printed := printed fx @ [(Stderr, m)]\<rparr>"

definition send :: "request \<Rightarrow> effects \<Rightarrow> effects" where
  "send r fx = fx\<lparr>requests := requests fx @ [r]\<rparr>"

text \<open>
  How an exchange with the server ends, once \<open>http.client\<close> has accepted the request:
  \<^item> \<open>Status s\<close>: with a response, \<open>s\<close> being the final status (after the redirects
    \<open>urlopen\<close> follows);
  \<^item> \<open>TransportFailure\<close>: connecting or sending fails with an \<open>OSError\<close>, which \<open>do_open\<close>
    wraps in a \<open>URLError\<close>;
  \<^item> \<open>Aborted\<close>: the exchange ends with an exception that is neither an \<open>HTTPError\<close> nor
    a \<open>URLError\<close>. The request is sent and no response can be read (the server closes
    the connection or answers with a malformed status line, the read times out), so
    \<open>getresponse\<close> raises and \<open>do_open\<close> passes the exception on as it is; or a redirection
    leads to a URL that \<open>http.client\<close> refuses. For a creation it also stands for an error
    response whose body cannot be read, since \<open>err.read()\<close> then raises inside the
    handler of \<open>github_create_repo\<close> before anything is printed.

  The server is a function from the requests made so far, the last one being the one to
  answer, to the outcome of the exchange.
\<close>

datatype http_outcome = Status nat | TransportFailure | Aborted

type_synonym network = "request list \<Rightarrow> http_outcome"

text \<open>
  \<open>urlopen(req)\<close>: a request that \<open>http.client\<close> refuses raises before anything is sent,
  and is not counted among the requests. A response is returned for a 2xx status only;
  every other status raises \<open>HTTPError\<close>.
\<close>

definition urlopen :: "network \<Rightarrow> request \<Rightarrow> effects \<Rightarrow> (py_exception + nat) \<times> effects" where
  "urlopen net req fx =
     (case refused req of
        Some err \<Rightarrow> (Inl err, fx)
      | None \<Rightarrow>
          (let fx1 = send req fx
           in case net (requests fx1) of
                Status s \<Rightarrow>
                  if 200 \<le> s \<and> s < 300 then (Inr s, fx1) else (Inl (HTTPError s), fx1)
              | TransportFailure \<Rightarrow> (Inl URLError, fx1)
              | Aborted \<Rightarrow> (Inl RemoteDisconnected, fx1)))"

definition repo_url :: "(json \<Rightarrow> string) \<Rightarrow> string \<Rightarrow> json \<Rightarrow> string" where
  "repo_url repr owner repo = ''https://api.github.com/repos/'' @ owner @ ''/'' @ py_str repr repo"

text \<open>
  Both functions catch \<open>HTTPError\<close> and \<open>URLError\<close> only: any other exception of \<open>urlopen\<close>
  leaves them as it is, with nothing printed.
\<close>

definition github_repo_exists ::
  "(json \<Rightarrow> string) \<Rightarrow> network \<Rightarrow> string \<Rightarrow> json \<Rightarrow> string \<Rightarrow> effects
    \<Rightarrow> (py_exception + bool) \<times> effects" where
  "github_repo_exists repr net owner repo token fx =
     (let url = repo_url repr owner repo;
          opened = urlopen net (Get url token) fx;
          fx1 = snd opened
      in case fst opened of
           Inr status \<Rightarrow> (Inr (200 \<le> status \<and> status < 300), fx1)
         | Inl err \<Rightarrow>
             (case err of
                HTTPError code \<Rightarrow>
                  if code = 404 then (Inr False, fx1)
                  else (Inl err, eprint (GetFailedHTTP url code) fx1)
              | URLError \<Rightarrow> (Inl err, eprint (GetFailedURL url) fx1)
              | _ \<Rightarrow> (Inl err, fx1)))"

definition github_create_repo ::
  "network \<Rightarrow> json \<Rightarrow> string \<Rightarrow> effects \<Rightarrow> (py_exception + bool) \<times> effects" where
  "github_create_repo net repo token fx =
     (let url = ''https://api.github.com/user/repos'';
          opened = urlopen net (Post url token repo) fx;
          fx1 = snd opened
      in case fst opened of
           Inr status \<Rightarrow>
             if 200 \<le> status \<and> status < 300 then (Inr True, fx1)
             else (Inr False, eprint (PostUnexpectedStatus status) fx1)
         | Inl err \<Rightarrow>
             (case err of
                HTTPError code \<Rightarrow>
                  if code = 422 then (Inr False, eprint (CreateReturned422 repo) fx1)
                  else (Inr False, eprint (PostFailedHTTP code) fx1)
              | URLError \<Rightarrow> (Inr False, eprint PostFailedURL fx1)
              | _ \<Rightarrow> (Inl err, fx1)))"

text \<open>
  Step 5 of \<open>main\<close>, the loop over \<open>repos_needed\<close>. An exception of the existence check
  is caught and the loop goes on; one of the creation would escape.
\<close>

fun ensure_repos ::
  "(json \<Rightarrow> string) \<Rightarrow> network \<Rightarrow> string \<Rightarrow> (string \<times> json) list \<Rightarrow> effects
    \<Rightarrow> py_exception option \<times> effects" where
  "ensure_repos repr net token [] fx = (None, fx)"
| "ensure_repos repr net token (needed # rest) fx =
     (let checked = github_repo_exists repr net (fst needed) (snd needed) token fx
      in case fst checked of
           Inl err \<Rightarrow> ensure_repos repr net token rest (snd checked)
         | Inr exists \<Rightarrow>
             if exists then ensure_repos repr net token rest (snd checked)
             else (let made = github_create_repo net (snd needed) token (snd checked)
                   in case fst made of
                        Inl err \<Rightarrow> (Some err, snd made)
                      | Inr created \<Rightarrow>
                          ensure_repos repr net token rest
                            ((if created then print (CreatedRepository (fst needed) (snd needed))
                              else eprint (CouldNotCreate (fst needed) (snd needed)))
                               (snd made))))"

section \<open>Grouping the entries\<close>

text \<open>
  The three structures of step 4. A \<open>dict\<close> is its items in insertion order; a \<open>set\<close> of
  repos is the list of its elements, looked up with Python's equality.
\<close>

record groups =
  badges_by_key :: "(string \<times> string list) list"
  seen_by_key :: "(string \<times> json list) list"
  repos_needed :: "(string \<times> json) list"

definition empty_groups :: groups where
  "empty_groups = \<lparr>badges_by_key = [], seen_by_key = [], repos_needed = []\<rparr>"

text \<open>The body of the loop from the badge on, for an entry that passed both checks.\<close>

definition add_project ::
  "string \<Rightarrow> string \<Rightarrow> string \<Rightarrow> json \<Rightarrow> groups \<Rightarrow> py_exception + groups" where
  "add_project badge owner key repo g =
     (let g1 = (if map_of (badges_by_key g) key = None
                then g\<lparr>badges_by_key := AList.update key [] (badges_by_key g),
                       seen_by_key := AList.update key [] (seen_by_key g)\<rparr>
                else g)
      in case map_of (seen_by_key g1) key of
           None \<Rightarrow> Inl KeyError
         | Some seen \<Rightarrow>
             if \<not> hashable repo then Inl TypeError
             else if list_ex (py_eq repo) seen
             then Inr (g1\<lparr>repos_needed := repos_needed g1 @ [(owner, repo)]\<rparr>)
             else (case map_of (badges_by_key g1) key of
                     None \<Rightarrow> Inl KeyError
                   | Some badges \<Rightarrow>
                       Inr (g1\<lparr>badges_by_key := AList.update key (badges @ [badge]) (badges_by_key g1),
                               seen_by_key := AList.update key (seen @ [repo]) (seen_by_key g1),
                               repos_needed := repos_needed g1 @ [(owner, repo)]\<rparr>)))"

text \<open>
  One iteration of the loop over the entries, for the entry \<open>item\<close> numbered \<open>idx\<close>. An
  iteration that raises has printed nothing.
\<close>

definition process_entry ::
  "(json \<Rightarrow> string) \<Rightarrow> string \<Rightarrow> nat \<Rightarrow> json \<Rightarrow> groups \<times> effects
    \<Rightarrow> py_exception + groups \<times> effects" where
  "process_entry repr owner idx item st =
     (case item_get item ''name'' of
        Inl err \<Rightarrow> Inl err
      | Inr name \<Rightarrow>
     (case item_get item ''language'' of
        Inl err \<Rightarrow> Inl err
      | Inr lang \<Rightarrow>
     (case item_get item ''repo'' of
        Inl err \<Rightarrow> Inl err
      | Inr repo \<Rightarrow>
          if \<not> truthy name \<or> \<not> truthy lang \<or> \<not> truthy repo
          then Inr (fst st, eprint (EntryIncomplete idx) (snd st))
          else (case normalize_language repr lang of
                  None \<Rightarrow> Inr (fst st, eprint (LanguageNotMapped lang) (snd st))
                | Some norm \<Rightarrow>
                    (case add_project (build_badge_md repr name owner repo) owner (snd norm) repo
                            (fst st) of
                       Inl err \<Rightarrow> Inl err
                     | Inr g \<Rightarrow> Inr (g, snd st))))))"

fun entry_loop ::
  "(json \<Rightarrow> string) \<Rightarrow> string \<Rightarrow> nat \<Rightarrow> json list \<Rightarrow> groups \<times> effects
    \<Rightarrow> py_exception option \<times> groups \<times> effects" where
  "entry_loop repr owner idx [] st = (None, st)"
| "entry_loop repr owner idx (item # rest) st =
     (case process_entry repr owner idx item st of
        Inl err \<Rightarrow> (Some err, st)
      | Inr st' \<Rightarrow> entry_loop repr owner (Suc idx) rest st')"

section \<open>The orchestrator\<close>

text \<open>\<open>" ".join(badges)\<close>.\<close>

fun join_space :: "string list \<Rightarrow> string" where
  "join_space [] = []"
| "join_space [b] = b"
| "join_space (b # bs) = b @ '' '' @ join_space bs"

text \<open>Step 6 of \<open>main\<close>, the loop over the marker keys of the document.\<close>

fun inject_badges ::
  "(string \<times> string list) list \<Rightarrow> string list \<Rightarrow> string \<Rightarrow> py_exception + string" where
  "inject_badges by_key [] new_readme = Inr new_readme"
| "inject_badges by_key (key # keys) new_readme =
     (let badges = (case map_of by_key key of None \<Rightarrow> [] | Some bs \<Rightarrow> bs);
          inner = (if badges \<noteq> [] then join_space badges else [])
      in case replace_between_markers new_readme key inner of
           Inl err \<Rightarrow> Inl err
         | Inr replaced \<Rightarrow> inject_badges by_key keys replaced)"

text \<open>
  What a run reads. A file is absent or it is read as UTF-8 text, which for the entry
  list is valid JSON or not; a file that cannot be opened or decoded, a document that
  cannot be written and an output stream that refuses a text are outside the model. An
  unset environment variable is the empty text. Python iterates over a set in an order
  that the hashes of its elements fix: \<open>hash_order\<close> ranks the keys.
\<close>

datatype json_file = FileNotFound | InvalidJSON | Loaded json

record world =
  projects_json :: json_file
  readme_md :: "string option"
  gh_owner_env :: string
  gh_pat_env :: string
  network :: network
  hash_order :: "string \<Rightarrow> nat"
  py_repr :: "json \<Rightarrow> string"

definition GH_OWNER :: "world \<Rightarrow> string" where
  "GH_OWNER w = (if strip (gh_owner_env w) = [] then ''Thhundder'' else strip (gh_owner_env w))"

definition GH_PAT :: "world \<Rightarrow> string" where
  "GH_PAT w = strip (gh_pat_env w)"

text \<open>
  How a run ends: \<open>sys.exit(n)\<close> or the end of \<open>main\<close> (status 0), or an exception
  nothing catches, for which the interpreter exits with status 1.
\<close>

datatype ending = Exit nat | Uncaught py_exception

fun exit_status :: "ending \<Rightarrow> nat" where
  "exit_status (Exit n) = n"
| "exit_status (Uncaught err) = 1"

record outcome =
  ended :: ending
  effected :: effects
  written :: "string option"

definition ensure_step :: "world \<Rightarrow> (string \<times> json) list \<Rightarrow> effects \<Rightarrow> py_exception option \<times> effects" where
  "ensure_step w needed fx =
     (if needed \<noteq> [] then
        (if GH_PAT w \<noteq> [] then ensure_repos (py_repr w) (network w) (GH_PAT w) needed fx
         else (None, eprint PatNotSet fx))
      else (None, fx))"

text \<open>Steps 3 and 4 of \<open>main\<close>: the scan of the document and the loop over the entries.\<close>

definition first_effects :: "string \<Rightarrow> effects" where
  "first_effects readme =
     (if collect_readme_marker_keys readme = [] then eprint NoMarkersFound no_effects
      else no_effects)"

definition group_entries ::
  "world \<Rightarrow> json list \<Rightarrow> string \<Rightarrow> py_exception option \<times> groups \<times> effects" where
  "group_entries w items readme =
     entry_loop (py_repr w) (GH_OWNER w) 1 items (empty_groups, first_effects readme)"

text \<open>Steps 3 to 7 of \<open>main\<close>, for the entries and the document it has read.\<close>

definition update_readme :: "world \<Rightarrow> json list \<Rightarrow> string \<Rightarrow> outcome" where
  "update_readme w items readme =
     (let marker_keys_in_readme = collect_readme_marker_keys readme;
          looped = group_entries w items readme
      in case fst looped of
           Some err \<Rightarrow> \<lparr>ended = Uncaught err, effected = snd (snd looped), written = None\<rparr>
         | None \<Rightarrow>
             (let g = fst (snd looped);
                  ensured = ensure_step w (repos_needed g) (snd (snd looped))
              in case fst ensured of
                   Some err \<Rightarrow> \<lparr>ended = Uncaught err, effected = snd ensured, written = None\<rparr>
                 | None \<Rightarrow>
                     (case inject_badges (badges_by_key g)
                             (sort_key (hash_order w) marker_keys_in_readme) readme of
                        Inl err \<Rightarrow> \<lparr>ended = Uncaught err, effected = snd ensured, written = None\<rparr>
                      | Inr new_readme \<Rightarrow>
                          if new_readme \<noteq> readme
                          then \<lparr>ended = Exit 0, effected = print ReadmeUpdated (snd ensured),
                                written = Some new_readme\<rparr>
                          else \<lparr>ended = Exit 0, effected = print NoChanges (snd ensured),
                                written = None\<rparr>)))"

definition fatal :: "message \<Rightarrow> outcome" where
  "fatal m = \<lparr>ended = Exit 1, effected = eprint m no_effects, written = None\<rparr>"

definition main :: "world \<Rightarrow> outcome" where
  "main w =
     (case projects_json w of
        FileNotFound \<Rightarrow> fatal ProjectsNotFound
      | InvalidJSON \<Rightarrow> fatal ProjectsInvalidJSON
      | Loaded data \<Rightarrow>
          (case data of
             JList items \<Rightarrow>
               (case readme_md w of
                  None \<Rightarrow> fatal ReadmeNotFound
                | Some readme \<Rightarrow> update_readme w items readme)
           | _ \<Rightarrow> fatal ProjectsNotAList))"

section \<open>Notions the statements use\<close>

text \<open>
  An entry that passes both checks of the loop: an object whose \<open>name\<close>, \<open>language\<close> and
  \<open>repo\<close> are truthy and whose language is mapped; and the \<open>repo\<close> it names.
\<close>

definition entry_field :: "json \<Rightarrow> string \<Rightarrow> json" where
  "entry_field item key = (case item_get item key of Inl err \<Rightarrow> JNull | Inr v \<Rightarrow> v)"

definition valid_entry :: "(json \<Rightarrow> string) \<Rightarrow> json \<Rightarrow> bool" where
  "valid_entry repr item =
     (case item of
        JDict kvs \<Rightarrow>
          truthy (entry_field item ''name'') \<and> truthy (entry_field item ''language'') \<and>
          truthy (entry_field item ''repo'') \<and>
          normalize_language repr (entry_field item ''language'') \<noteq> None
      | _ \<Rightarrow> False)"

text \<open>
  The repository references step 4 hands to step 5, for a run that gets that far: the
  entry list and the document are read and the loop over the entries raises nothing.
\<close>

definition repos_collected :: "world \<Rightarrow> (string \<times> json) list option" where
  "repos_collected w =
     (case projects_json w of
        Loaded data \<Rightarrow>
          (case data of
             JList items \<Rightarrow>
               (case readme_md w of
                  None \<Rightarrow> None
                | Some readme \<Rightarrow>
                    (let looped = group_entries w items readme
                     in if fst looped = None then Some (repos_needed (fst (snd looped)))
                        else None))
           | _ \<Rightarrow> None)
      | _ \<Rightarrow> None)"

text \<open>
  The badge group of a key as the specification describes it: of the valid entries whose
  language normalizes to the key, in the order of the input list, the badge of each entry
  whose \<open>repo\<close> no earlier one of them has.
\<close>

definition entry_key :: "(json \<Rightarrow> string) \<Rightarrow> json \<Rightarrow> string option" where
  "entry_key repr item = map_option snd (normalize_language repr (entry_field item ''language''))"

definition entry_badge :: "(json \<Rightarrow> string) \<Rightarrow> string \<Rightarrow> json \<Rightarrow> string" where
  "entry_badge repr owner item =
     build_badge_md repr (entry_field item ''name'') owner (entry_field item ''repo'')"

definition entries_for :: "(json \<Rightarrow> string) \<Rightarrow> string \<Rightarrow> json list \<Rightarrow> json list" where
  "entries_for repr key items =
     filter (\<lambda>item. valid_entry repr item \<and> entry_key repr item = Some key) items"

definition same_repo :: "json \<Rightarrow> json \<Rightarrow> bool" where
  "same_repo a b = py_eq (entry_field a ''repo'') (entry_field b ''repo'')"

fun first_per_repo :: "json list \<Rightarrow> json list" where
  "first_per_repo [] = []"
| "first_per_repo (e # es) = e # first_per_repo (filter (\<lambda>later. \<not> same_repo later e) es)"

definition expected_badges ::
  "(json \<Rightarrow> string) \<Rightarrow> string \<Rightarrow> string \<Rightarrow> json list \<Rightarrow> string list option" where
  "expected_badges repr owner key items =
     (if entries_for repr key items = [] then None
      else Some (map (entry_badge repr owner) (first_per_repo (entries_for repr key items))))"

definition expected_seen :: "(json \<Rightarrow> string) \<Rightarrow> string \<Rightarrow> json list \<Rightarrow> json list option" where
  "expected_seen repr key items =
     (if entries_for repr key items = [] then None
      else Some (map (\<lambda>e. entry_field e ''repo'') (first_per_repo (entries_for repr key items))))"

text \<open>
  A text without a backslash, which \<open>re\<close> takes literally in a replacement; and an entry
  the loop and the replacement take without raising: an object whose \<open>repo\<close> can be hashed
  and whose \<open>name\<close> and \<open>repo\<close> print without a backslash.
\<close>

definition plain :: "string \<Rightarrow> bool" where
  "plain s = (backslash \<notin> set s)"



text \<open>Groups whose badges are free of backslashes, over the same keys as the sets of repos.\<close>

definition plain_groups :: "groups \<Rightarrow> bool" where
  "plain_groups g =
     (list_all (\<lambda>entry. list_all plain (snd entry)) (badges_by_key g) \<and>
      map fst (badges_by_key g) = map fst (seen_by_key g))"

fun is_get :: "request \<Rightarrow> bool" where
  "is_get (Get url token) = True"
| "is_get (Post url token name) = False"

text \<open>
  The two requests the reconciler has for a repository reference, and the sequence of
  requests the specification describes for a list of references: for each reference in
  turn one existence check and, when the server answers it with 404, one creation.
\<close>

definition check_request :: "(json \<Rightarrow> string) \<Rightarrow> string \<Rightarrow> string \<times> json \<Rightarrow> request" where
  "check_request repr token needed = Get (repo_url repr (fst needed) (snd needed)) token"

definition create_request :: "string \<Rightarrow> string \<times> json \<Rightarrow> request" where
  "create_request token needed = Post ''https://api.github.com/user/repos'' token (snd needed)"

fun check_then_create :: "network \<Rightarrow> (request \<times> request) list \<Rightarrow> request list \<Rightarrow> request list" where
  "check_then_create net [] sent = sent"
| "check_then_create net (pair # rest) sent =
     (if net (sent @ [fst pair]) = Status 404
      then check_then_create net rest (sent @ [fst pair, snd pair])
      else check_then_create net rest (sent @ [fst pair]))"

text \<open>How many times a line was printed.\<close>

definition times_printed :: "stream \<times> message \<Rightarrow> effects \<Rightarrow> nat" where
  "times_printed line fx = length (filter (\<lambda>l. l = line) (printed fx))"

section \<open>Sample inputs\<close>

text \<open>The inputs at which the theorems below are instantiated.\<close>

definition always :: "http_outcome \<Rightarrow> network" where
  "always outcome trace = outcome"

definition by_method :: "http_outcome \<Rightarrow> http_outcome \<Rightarrow> network" where
  "by_method to_get to_post trace =
     (if trace \<noteq> [] \<and> is_get (last trace) then to_get else to_post)"

definition flat_order :: "string \<Rightarrow> nat" where
  "flat_order key = 0"

definition no_repr :: "json \<Rightarrow> string" where
  "no_repr v = []"

definition project :: "string \<Rightarrow> string \<Rightarrow> string \<Rightarrow> json" where
  "project name lang repo =
     JDict [(''name'', JStr name), (''language'', JStr lang), (''repo'', JStr repo)]"

text \<open>
  A server on which the repositories at the given URLs are missing and the others exist,
  and which creates every repository it is asked for.
\<close>

definition server_without :: "string list \<Rightarrow> network" where
  "server_without urls trace =
     (if trace = [] then TransportFailure
      else case last trace of
             Get url token \<Rightarrow> if url \<in> set urls then Status 404 else Status 200
           | Post url token name \<Rightarrow> Status 201)"

definition sample_server :: "json_file \<Rightarrow> string option \<Rightarrow> string \<Rightarrow> network \<Rightarrow> world" where
  "sample_server projects readme pat net =
     \<lparr>projects_json = projects, readme_md = readme, gh_owner_env = [], gh_pat_env = pat,
      network = net, hash_order = flat_order, py_repr = no_repr\<rparr>"

definition sample_world :: "json_file \<Rightarrow> string option \<Rightarrow> string \<Rightarrow> http_outcome \<Rightarrow> world" where
  "sample_world projects readme pat outcome =
     \<lparr>projects_json = projects, readme_md = readme, gh_owner_env = [], gh_pat_env = pat,
      network = always outcome, hash_order = flat_order, py_repr = no_repr\<rparr>"

section \<open>Properties of the replacer\<close>

lemma strip_prefix_self: "strip_prefix p (p @ x) = Some x"
  by (induction p) auto

lemma search_literal_self: "search_literal p (p @ x) = Some ([], x)"
proof (cases "p @ x")
  case Nil
  then show ?thesis by simp
next
  case (Cons c cs)
  have "strip_prefix p (c # cs) = Some x"
    using strip_prefix_self [of p x] Cons by simp
  with Cons show ?thesis by simp
qed

lemma search_literal_Some: "search_literal p s = Some (b, r) \<Longrightarrow> s = b @ p @ r"
proof (induction s arbitrary: b r)
  case Nil
  then show ?case by (simp split: if_splits)
next
  case (Cons c cs)
  show ?case
  proof (cases "strip_prefix p (c # cs)")
    case (Some rest)
    with Cons.prems show ?thesis
      by (auto simp: strip_prefix_eq split: if_splits) (metis append_take_drop_id)
  next
    case None
    with Cons show ?thesis
      by (auto split: option.splits)
  qed
qed

lemma strip_prefix_None_iff: "strip_prefix p s = None \<longleftrightarrow> take (length p) s \<noteq> p"
  by (simp add: strip_prefix_eq)

lemma strip_prefix_None_extend:
  assumes "strip_prefix p (u @ p @ r) = None"
  shows "strip_prefix p (u @ p @ x) = None"
proof -
  have "take (length p) ((u @ p) @ x) = take (length p) ((u @ p) @ r)"
    by (simp del: append_assoc)
  then have "take (length p) (u @ p @ x) = take (length p) (u @ p @ r)"
    by simp
  moreover from assms have "take (length p) (u @ p @ r) \<noteq> p"
    unfolding strip_prefix_None_iff .
  ultimately show ?thesis
    unfolding strip_prefix_None_iff by simp
qed

text \<open>Where the leftmost occurrence lies depends on the text up to its end only.\<close>

lemma search_literal_stable:
  "search_literal p s = Some (b, r) \<Longrightarrow> search_literal p (b @ p @ x) = Some (b, x)"
proof (induction s arbitrary: b r)
  case Nil
  then show ?case
    using search_literal_self [of "[]" x] by (simp split: if_splits)
next
  case (Cons c cs)
  show ?case
  proof (cases "strip_prefix p (c # cs)")
    case (Some rest)
    with Cons.prems show ?thesis
      using search_literal_self [of p x] by simp
  next
    case None
    with Cons.prems obtain b' where b: "b = c # b'" and s: "search_literal p cs = Some (b', r)"
      by (auto split: option.splits)
    from search_literal_Some [OF s] have cs: "cs = b' @ p @ r" .
    from None cs have "strip_prefix p ((c # b') @ p @ r) = None" by simp
    then have "strip_prefix p ((c # b') @ p @ x) = None"
      by (rule strip_prefix_None_extend)
    with Cons.IH [OF s] b show ?thesis by simp
  qed
qed

lemma expand_template_plain: "backslash \<notin> set t \<Longrightarrow> expand_template g0 g1 t = Inr t"
  by (induction t) auto

lemma count_newlines_append: "count_newlines (a @ b) = count_newlines a + count_newlines b"
  by (simp add: count_newlines_def)

lemma pattern_search_Some:
  "pattern_search S E doc = Some (b, old, a) \<Longrightarrow> doc = b @ S @ old @ E @ a"
  by (auto simp: pattern_search_def split: option.splits dest!: search_literal_Some)

lemma marker_no_backslash:
  "backslash \<notin> set k \<Longrightarrow> backslash \<notin> set (start_marker k) \<and> backslash \<notin> set (end_marker k)"
  by (simp add: start_marker_def end_marker_def backslash_def)

lemma replace_plain:
  assumes "backslash \<notin> set k" and "backslash \<notin> set inner"
  shows "replace_between_markers doc k inner =
    (case pattern_search (start_marker k) (end_marker k) doc of
       None \<Rightarrow> Inr doc
     | Some (b, old, a) \<Rightarrow> Inr (b @ start_marker k @ inner @ end_marker k @ a))"
proof -
  have "backslash \<notin> set (start_marker k @ inner @ end_marker k)"
    using assms marker_no_backslash [of k] by simp
  then show ?thesis
    by (simp add: replace_between_markers_def Let_def expand_template_plain split: option.splits)
qed

lemma pattern_search_stable:
  assumes "pattern_search S E doc = Some (b, old, a)"
    and "search_literal E (c @ E) = Some (c, [])"
  shows "pattern_search S E (b @ S @ c @ E @ a) = Some (b, c, a)"
proof -
  from assms(1) obtain rest where
    s: "search_literal S doc = Some (b, rest)"
    by (auto simp: pattern_search_def split: option.splits)
  have 1: "search_literal S (b @ S @ c @ E @ a) = Some (b, c @ E @ a)"
    by (rule search_literal_stable [OF s])
  have 2: "search_literal E (c @ E @ a) = Some (c, a)"
    using search_literal_stable [OF assms(2), of a] by simp
  show ?thesis
    by (simp add: pattern_search_def 1 2)
qed

text \<open>
  C4, as amended. For a marker key and a content without backslashes the replacer returns
  a text; where the document has no sentinel pair for the key it is the document itself,
  and otherwise the line breaks of the result are those of the document, less those of the
  replaced region, plus those of the content. The replacer adds no line break of its own,
  so the line count is unchanged whenever neither the replaced region nor the content has
  a line break.
\<close>

theorem replace_between_markers_line_count:
  assumes "backslash \<notin> set marker_key" and "backslash \<notin> set inner_text"
  shows "\<exists>r. replace_between_markers readme_text marker_key inner_text = Inr r \<and>
    (case pattern_search (start_marker marker_key) (end_marker marker_key) readme_text of
       None \<Rightarrow> r = readme_text
     | Some (before, old, after) \<Rightarrow>
         line_count r + count_newlines old = line_count readme_text + count_newlines inner_text)"
proof (cases "pattern_search (start_marker marker_key) (end_marker marker_key) readme_text")
  case None
  then show ?thesis
    by (simp add: replace_plain [OF assms])
next
  case (Some found)
  obtain b old a where found: "found = (b, old, a)"
    by (cases found) auto
  from Some found have doc:
    "readme_text = b @ start_marker marker_key @ old @ end_marker marker_key @ a"
    by (simp add: pattern_search_Some)
  have "line_count (b @ start_marker marker_key @ inner_text @ end_marker marker_key @ a)
      + count_newlines old
    = line_count (b @ start_marker marker_key @ old @ end_marker marker_key @ a)
      + count_newlines inner_text"
    by (simp add: line_count_def count_newlines_append)
  with Some found doc show ?thesis
    by (simp add: replace_plain [OF assms])
qed

theorem replace_between_markers_line_count_witness:
  "backslash \<notin> set ''k'' \<and> backslash \<notin> set ''NEW'' \<and>
   pattern_search (start_marker ''k'') (end_marker ''k'')
     (''x<!-- PROJECTS:k:START -->a'' @ [newline] @ ''b<!-- PROJECTS:k:END -->y'')
     = Some (''x'', ''a'' @ [newline] @ ''b'', ''y'') \<and>
   (\<exists>r. replace_between_markers
          (''x<!-- PROJECTS:k:START -->a'' @ [newline] @ ''b<!-- PROJECTS:k:END -->y'') ''k'' ''NEW''
          = Inr r \<and>
        line_count r + 1 = 2)"
proof -
  have h1: "backslash \<notin> set ''k''" and h2: "backslash \<notin> set ''NEW''"
    by (simp_all add: backslash_def)
  have e: "pattern_search (start_marker ''k'') (end_marker ''k'')
     (''x<!-- PROJECTS:k:START -->a'' @ [newline] @ ''b<!-- PROJECTS:k:END -->y'')
     = Some (''x'', ''a'' @ [newline] @ ''b'', ''y'')"
    by code_simp
  have n: "line_count (''x<!-- PROJECTS:k:START -->a'' @ [newline] @ ''b<!-- PROJECTS:k:END -->y'') = 2"
    "count_newlines (''a'' @ [newline] @ ''b'') = 1" "count_newlines ''NEW'' = 0"
    by (simp_all add: line_count_def count_newlines_def newline_def)
  from replace_between_markers_line_count [OF h1 h2,
      of "''x<!-- PROJECTS:k:START -->a'' @ [newline] @ ''b<!-- PROJECTS:k:END -->y''"]
  show ?thesis
    using h1 h2 e n by auto
qed

text \<open>
  C4 as stated fails: the region spans line breaks, so clearing a region that holds one
  shortens the document by a line.
\<close>

theorem replace_between_markers_line_count_counterexample:
  "replace_between_markers
     (''<!-- PROJECTS:k:START -->a'' @ [newline] @ ''b<!-- PROJECTS:k:END -->'') ''k'' ''''
     = Inr ''<!-- PROJECTS:k:START --><!-- PROJECTS:k:END -->'' \<and>
   line_count (''<!-- PROJECTS:k:START -->a'' @ [newline] @ ''b<!-- PROJECTS:k:END -->'') = 2 \<and>
   line_count ''<!-- PROJECTS:k:START --><!-- PROJECTS:k:END -->'' = 1"
  by code_simp

text \<open>
  C5, as amended. For a marker key and a content without backslashes, where the end
  sentinel of the key occurs in the content followed by the end sentinel at the very end
  only, replacing twice with the same content gives the text that replacing once gives.
\<close>

theorem replace_between_markers_idempotent:
  assumes "backslash \<notin> set marker_key" and "backslash \<notin> set inner_text"
    and "search_literal (end_marker marker_key) (inner_text @ end_marker marker_key)
      = Some (inner_text, [])"
  shows "\<exists>r. replace_between_markers readme_text marker_key inner_text = Inr r \<and>
    replace_between_markers r marker_key inner_text = Inr r"
proof (cases "pattern_search (start_marker marker_key) (end_marker marker_key) readme_text")
  case None
  then show ?thesis
    by (simp add: replace_plain [OF assms(1,2)])
next
  case (Some found)
  obtain b old a where found: "found = (b, old, a)"
    by (cases found) auto
  let ?r = "b @ start_marker marker_key @ inner_text @ end_marker marker_key @ a"
  have once: "replace_between_markers readme_text marker_key inner_text = Inr ?r"
    using Some found by (simp add: replace_plain [OF assms(1,2)])
  have "pattern_search (start_marker marker_key) (end_marker marker_key) ?r
      = Some (b, inner_text, a)"
    using Some found assms(3) by (simp add: pattern_search_stable)
  then have "replace_between_markers ?r marker_key inner_text = Inr ?r"
    by (simp add: replace_plain [OF assms(1,2)])
  with once show ?thesis
    by simp
qed

theorem replace_between_markers_idempotent_witness:
  "backslash \<notin> set ''k'' \<and> backslash \<notin> set ''NEW'' \<and>
   search_literal (end_marker ''k'') (''NEW'' @ end_marker ''k'') = Some (''NEW'', []) \<and>
   (\<exists>r. replace_between_markers ''x<!-- PROJECTS:k:START -->old<!-- PROJECTS:k:END -->y'' ''k'' ''NEW''
          = Inr r \<and>
        replace_between_markers r ''k'' ''NEW'' = Inr r)"
proof -
  have h1: "backslash \<notin> set ''k''" and h2: "backslash \<notin> set ''NEW''"
    by (simp_all add: backslash_def)
  have h3: "search_literal (end_marker ''k'') (''NEW'' @ end_marker ''k'') = Some (''NEW'', [])"
    by code_simp
  from replace_between_markers_idempotent [OF h1 h2 h3] h1 h2 h3
  show ?thesis
    by blast
qed

text \<open>
  C5 as stated fails for a content that holds the end sentinel: the second replacement
  ends the region at the end sentinel inside the content.
\<close>

theorem replace_between_markers_idempotent_counterexample:
  "replace_between_markers ''<!-- PROJECTS:k:START --><!-- PROJECTS:k:END -->'' ''k''
     ''<!-- PROJECTS:k:END -->''
     = Inr ''<!-- PROJECTS:k:START --><!-- PROJECTS:k:END --><!-- PROJECTS:k:END -->'' \<and>
   replace_between_markers
     ''<!-- PROJECTS:k:START --><!-- PROJECTS:k:END --><!-- PROJECTS:k:END -->'' ''k''
     ''<!-- PROJECTS:k:END -->''
     = Inr ''<!-- PROJECTS:k:START --><!-- PROJECTS:k:END --><!-- PROJECTS:k:END --><!-- PROJECTS:k:END -->'' \<and>
   ''<!-- PROJECTS:k:START --><!-- PROJECTS:k:END --><!-- PROJECTS:k:END --><!-- PROJECTS:k:END -->''
     \<noteq> ''<!-- PROJECTS:k:START --><!-- PROJECTS:k:END --><!-- PROJECTS:k:END -->''"
  by code_simp

section \<open>Properties of the entry loop\<close>

lemma process_entry_not_dict:
  "(\<forall>kvs. item \<noteq> JDict kvs) \<Longrightarrow> process_entry repr owner idx item st = Inl AttributeError"
  by (cases item) (simp_all add: process_entry_def)

lemma map_of_filter_out: "map_of (filter (\<lambda>kv. fst kv \<noteq> k) kvs) k = None"
  by (induction kvs) auto

text \<open>
  C10. An entry in which \<open>name\<close>, \<open>language\<close> or \<open>repo\<close> is present with a falsy value (an
  empty string, 0, \<open>false\<close>, \<open>null\<close>, an empty list or object) is skipped with the
  incompleteness warning: the groups, hence the badges and the repository references, are
  left as they were. The entry without that field is treated in the same way.
\<close>

theorem incomplete_entry_skipped:
  assumes "field \<in> {''name'', ''language'', ''repo''}"
    and "map_of kvs field = Some v" and "\<not> truthy v"
  shows "process_entry repr owner idx (JDict kvs) (g, fx)
      = Inr (g, eprint (EntryIncomplete idx) fx) \<and>
    process_entry repr owner idx (JDict (filter (\<lambda>kv. fst kv \<noteq> field) kvs)) (g, fx)
      = Inr (g, eprint (EntryIncomplete idx) fx)"
proof -
  have present: "item_get (JDict kvs) field = Inr v"
    using assms(2) by simp
  have missing: "item_get (JDict (filter (\<lambda>kv. fst kv \<noteq> field) kvs)) field = Inr JNull"
    by (simp add: map_of_filter_out)
  from assms(1) present assms(3) have 1: "process_entry repr owner idx (JDict kvs) (g, fx)
      = Inr (g, eprint (EntryIncomplete idx) fx)"
    by (auto simp: process_entry_def split: sum.splits)
  from assms(1) missing have 2:
    "process_entry repr owner idx (JDict (filter (\<lambda>kv. fst kv \<noteq> field) kvs)) (g, fx)
      = Inr (g, eprint (EntryIncomplete idx) fx)"
    by (auto simp: process_entry_def split: sum.splits)
  from 1 2 show ?thesis by simp
qed

theorem incomplete_entry_skipped_witness:
  "''repo'' \<in> {''name'', ''language'', ''repo''} \<and>
   map_of [(''name'', JStr ''A''), (''language'', JStr ''py''), (''repo'', JInt 0)] ''repo''
     = Some (JInt 0) \<and>
   \<not> truthy (JInt 0) \<and>
   process_entry no_repr ''o'' 3
     (JDict [(''name'', JStr ''A''), (''language'', JStr ''py''), (''repo'', JInt 0)])
     (empty_groups, no_effects)
     = Inr (empty_groups, eprint (EntryIncomplete 3) no_effects)"
  using incomplete_entry_skipped [of "''repo''"
      "[(''name'', JStr ''A''), (''language'', JStr ''py''), (''repo'', JInt 0)]" "JInt 0"
      no_repr "''o''" 3 empty_groups no_effects]
  by simp

lemma entry_loop_append:
  "entry_loop repr owner idx (xs @ ys) st =
     (case fst (entry_loop repr owner idx xs st) of
        Some err \<Rightarrow> entry_loop repr owner idx xs st
      | None \<Rightarrow> entry_loop repr owner (idx + length xs) ys (snd (entry_loop repr owner idx xs st)))"
  by (induction xs arbitrary: idx st) (auto split: sum.splits option.splits)

lemma entry_loop_sends_nothing:
  "requests (snd (snd (entry_loop repr owner idx items st))) = requests (snd st)"
proof (induction items arbitrary: idx st)
  case Nil
  then show ?case by simp
next
  case (Cons item items)
  show ?case
  proof (cases "process_entry repr owner idx item st")
    case (Inl err)
    then show ?thesis by simp
  next
    case (Inr st')
    then have "requests (snd st') = requests (snd st)"
      by (auto simp: process_entry_def eprint_def split: sum.splits if_splits option.splits)
    with Inr Cons.IH [of "Suc idx" st'] show ?thesis by simp
  qed
qed


lemma group_entries_sends_nothing:
  "requests (snd (snd (group_entries w items readme))) = []"
  by (simp add: group_entries_def entry_loop_sends_nothing first_effects_def no_effects_def
      eprint_def)

lemma update_readme_raises:
  assumes "fst (group_entries w items readme) = Some err"
  shows "ended (update_readme w items readme) = Uncaught err"
    and "written (update_readme w items readme) = None"
    and "requests (effected (update_readme w items readme)) = []"
  using assms group_entries_sends_nothing [of w items readme]
  by (simp_all add: update_readme_def Let_def)

text \<open>
  C9. An element of the list that is not an object makes the iteration that reads it raise
  \<open>AttributeError\<close>, so the loop over a list that holds one always raises; when the
  elements before it are processed without an exception, the loop stops at the element
  with the state those left, without a warning for it. The exception is not caught: the
  run ends with status 1, writes no document and sends no request.
\<close>

theorem non_object_entry_raises:
  assumes "\<forall>kvs. item \<noteq> JDict kvs"
  shows "process_entry repr owner idx item st = Inl AttributeError \<and>
    (\<exists>err. fst (entry_loop repr owner idx (before @ item # after) st) = Some err) \<and>
    (fst (entry_loop repr owner idx before st) = None \<longrightarrow>
       entry_loop repr owner idx (before @ item # after) st
         = (Some AttributeError, snd (entry_loop repr owner idx before st))) \<and>
    (projects_json w = Loaded (JList (before @ item # after)) \<longrightarrow>
       exit_status (ended (main w)) = 1 \<and> written (main w) = None \<and>
       requests (effected (main w)) = [])"
proof -
  have step: "\<And>i s. process_entry repr owner i item s = Inl AttributeError"
    using assms by (rule process_entry_not_dict)
  have tail: "\<And>i s. entry_loop repr owner i (item # after) s = (Some AttributeError, s)"
    by (simp add: step)
  have raises: "\<And>rp ow i s. \<exists>err. fst (entry_loop rp ow i (before @ item # after) s) = Some err"
  proof -
    fix rp ow i s
    have "\<And>j t. entry_loop rp ow j (item # after) t = (Some AttributeError, t)"
      using assms by (simp add: process_entry_not_dict)
    then show "\<exists>err. fst (entry_loop rp ow i (before @ item # after) s) = Some err"
      by (cases "fst (entry_loop rp ow i before s)") (simp_all add: entry_loop_append)
  qed
  have at: "fst (entry_loop repr owner idx before st) = None \<longrightarrow>
       entry_loop repr owner idx (before @ item # after) st
         = (Some AttributeError, snd (entry_loop repr owner idx before st))"
    by (simp add: entry_loop_append step)
  have run: "projects_json w = Loaded (JList (before @ item # after)) \<longrightarrow>
       exit_status (ended (main w)) = 1 \<and> written (main w) = None \<and>
       requests (effected (main w)) = []"
  proof
    assume p: "projects_json w = Loaded (JList (before @ item # after))"
    show "exit_status (ended (main w)) = 1 \<and> written (main w) = None \<and>
       requests (effected (main w)) = []"
    proof (cases "readme_md w")
      case None
      with p show ?thesis
        by (simp add: main_def fatal_def eprint_def no_effects_def)
    next
      case (Some readme)
      obtain err where "fst (group_entries w (before @ item # after) readme) = Some err"
        unfolding group_entries_def using raises by blast
      from update_readme_raises [OF this] p Some show ?thesis
        by (simp add: main_def)
    qed
  qed
  from step raises at run show ?thesis by blast
qed

theorem non_object_entry_raises_witness:
  "(\<forall>kvs. JStr ''x'' \<noteq> JDict kvs) \<and>
   process_entry no_repr ''o'' 2 (JStr ''x'') (empty_groups, no_effects) = Inl AttributeError \<and>
   fst (entry_loop no_repr ''o'' 1 [project ''A'' ''py'' ''r''] (empty_groups, no_effects)) = None \<and>
   fst (entry_loop no_repr ''o'' 1 ([project ''A'' ''py'' ''r''] @ JStr ''x'' # [])
          (empty_groups, no_effects)) = Some AttributeError \<and>
   exit_status (ended (main (sample_world
     (Loaded (JList ([project ''A'' ''py'' ''r''] @ JStr ''x'' # []))) (Some []) [] (Status 200)))) = 1"
proof -
  have h: "\<forall>kvs. JStr ''x'' \<noteq> JDict kvs"
    by simp
  have ok: "fst (entry_loop no_repr ''o'' 1 [project ''A'' ''py'' ''r''] (empty_groups, no_effects))
      = None"
    by code_simp
  have p: "projects_json (sample_world
     (Loaded (JList ([project ''A'' ''py'' ''r''] @ JStr ''x'' # []))) (Some []) [] (Status 200))
     = Loaded (JList ([project ''A'' ''py'' ''r''] @ JStr ''x'' # []))"
    by (simp add: sample_world_def)
  from non_object_entry_raises [OF h, of no_repr "''o''" 2 "(empty_groups, no_effects)"]
  have 1: "process_entry no_repr ''o'' 2 (JStr ''x'') (empty_groups, no_effects)
      = Inl AttributeError"
    by blast
  from non_object_entry_raises [OF h, of no_repr "''o''" 1 "(empty_groups, no_effects)"
      "[project ''A'' ''py'' ''r'']" "[]"] ok
  have 2: "fst (entry_loop no_repr ''o'' 1 ([project ''A'' ''py'' ''r''] @ JStr ''x'' # [])
          (empty_groups, no_effects)) = Some AttributeError"
    by simp
  from non_object_entry_raises [OF h, of _ _ _ _ "[project ''A'' ''py'' ''r'']" "[]"
      "sample_world (Loaded (JList ([project ''A'' ''py'' ''r''] @ JStr ''x'' # []))) (Some []) []
         (Status 200)"] p
  have 3: "exit_status (ended (main (sample_world
     (Loaded (JList ([project ''A'' ''py'' ''r''] @ JStr ''x'' # []))) (Some []) [] (Status 200)))) = 1"
    by blast
  from h 1 ok 2 3 show ?thesis
    by blast
qed

lemma world_updates [simp]:
  "GH_OWNER (w\<lparr>gh_pat_env := pat, network := net\<rparr>) = GH_OWNER w"
  "GH_PAT (w\<lparr>gh_pat_env := pat, network := net\<rparr>) = strip pat"
  "group_entries (w\<lparr>gh_pat_env := pat, network := net\<rparr>) items readme
     = group_entries w items readme"
  by (simp_all add: GH_OWNER_def GH_PAT_def group_entries_def)

lemma add_project_repos:
  "add_project badge owner key repo g = Inr g' \<Longrightarrow>
   repos_needed g' = repos_needed g @ [(owner, repo)]"
  by (auto simp: add_project_def Let_def split: option.splits if_splits)

lemma process_entry_repos:
  assumes "process_entry repr owner idx item (g, fx) = Inr (g', fx')"
  shows "repos_needed g' = repos_needed g @
    (if valid_entry repr item then [(owner, entry_field item ''repo'')] else [])"
proof (cases item)
  case (JDict kvs)
  with assms show ?thesis
    by (auto simp: process_entry_def valid_entry_def entry_field_def
        split: sum.splits if_splits option.splits dest: add_project_repos)
qed (use assms in \<open>simp_all add: process_entry_def\<close>)

lemma entry_loop_repos:
  "entry_loop repr owner idx items (g, fx) = (None, g', fx') \<Longrightarrow>
   repos_needed g' = repos_needed g @
     map (\<lambda>item. (owner, entry_field item ''repo'')) (filter (valid_entry repr) items)"
proof (induction items arbitrary: idx g fx)
  case Nil
  then show ?case by simp
next
  case (Cons item items)
  from Cons.prems obtain g1 fx1 where
    step: "process_entry repr owner idx item (g, fx) = Inr (g1, fx1)" and
    rest: "entry_loop repr owner (Suc idx) items (g1, fx1) = (None, g', fx')"
    by (auto split: sum.splits)
  from process_entry_repos [OF step] Cons.IH [OF rest] show ?case
    by simp
qed

lemma process_entry_printed:
  assumes "process_entry repr owner idx item st = Inr st'"
  shows "requests (snd st') = requests (snd st) \<and>
    times_printed (Stderr, PatNotSet) (snd st') = times_printed (Stderr, PatNotSet) (snd st)"
  using assms
  by (auto simp: process_entry_def eprint_def times_printed_def
      split: sum.splits if_splits option.splits)

lemma entry_loop_printed:
  "times_printed (Stderr, PatNotSet) (snd (snd (entry_loop repr owner idx items st)))
     = times_printed (Stderr, PatNotSet) (snd st)"
proof (induction items arbitrary: idx st)
  case Nil
  then show ?case by simp
next
  case (Cons item items)
  show ?case
  proof (cases "process_entry repr owner idx item st")
    case (Inl err)
    then show ?thesis by simp
  next
    case (Inr st')
    with process_entry_printed [OF Inr] Cons.IH [of "Suc idx" st'] show ?thesis by simp
  qed
qed

lemma group_entries_printed:
  "times_printed (Stderr, PatNotSet) (snd (snd (group_entries w items readme))) = 0"
  by (simp add: group_entries_def entry_loop_printed first_effects_def)
    (simp add: times_printed_def eprint_def no_effects_def)

lemma group_entries_repos:
  assumes "fst (group_entries w items readme) = None"
  shows "repos_needed (fst (snd (group_entries w items readme)))
    = map (\<lambda>item. (GH_OWNER w, entry_field item ''repo'')) (filter (valid_entry (py_repr w)) items)"
proof -
  obtain g fx where l: "group_entries w items readme = (None, g, fx)"
    using assms by (cases "group_entries w items readme") auto
  then have "entry_loop (py_repr w) (GH_OWNER w) 1 items (empty_groups, first_effects readme)
      = (None, g, fx)"
    by (simp add: group_entries_def)
  from entry_loop_repos [OF this] l show ?thesis
    by (simp add: empty_groups_def)
qed

lemma repos_collected_Some:
  assumes "projects_json w = Loaded (JList items)" and "repos_collected w = Some needed"
  shows "\<exists>readme. readme_md w = Some readme \<and> fst (group_entries w items readme) = None \<and>
    needed = repos_needed (fst (snd (group_entries w items readme)))"
  using assms
  by (auto simp: repos_collected_def Let_def split: option.splits if_splits)

section \<open>Properties of the reconciler\<close>

lemma refused_cases:
  "refused req = Some err \<Longrightarrow> err = InvalidURL \<or> err = UnicodeEncodeError \<or> err = ValueError"
  by (auto simp: refused_def Let_def split: if_splits)

lemma urlopen_refused: "refused req = Some err \<Longrightarrow> urlopen net req fx = (Inl err, fx)"
  by (simp add: urlopen_def)

lemma urlopen_sent:
  "refused req = None \<Longrightarrow>
   urlopen net req fx =
     (case net (requests fx @ [req]) of
        Status s \<Rightarrow> if 200 \<le> s \<and> s < 300 then Inr s else Inl (HTTPError s)
      | TransportFailure \<Rightarrow> Inl URLError
      | Aborted \<Rightarrow> Inl RemoteDisconnected, send req fx)"
  by (simp add: urlopen_def Let_def send_def split: http_outcome.splits)

lemma github_repo_exists_refused:
  assumes "refused (Get (repo_url repr owner repo) token) = Some err"
  shows "github_repo_exists repr net owner repo token fx = (Inl err, fx)"
  using refused_cases [OF assms]
  by (auto simp: github_repo_exists_def Let_def urlopen_refused [OF assms])

lemma github_repo_exists_sent:
  assumes "refused (Get (repo_url repr owner repo) token) = None"
  shows "github_repo_exists repr net owner repo token fx =
    (case net (requests fx @ [Get (repo_url repr owner repo) token]) of
       Status s \<Rightarrow>
         if 200 \<le> s \<and> s < 300 then (Inr True, send (Get (repo_url repr owner repo) token) fx)
         else if s = 404 then (Inr False, send (Get (repo_url repr owner repo) token) fx)
         else (Inl (HTTPError s),
               eprint (GetFailedHTTP (repo_url repr owner repo) s)
                 (send (Get (repo_url repr owner repo) token) fx))
     | TransportFailure \<Rightarrow>
         (Inl URLError,
          eprint (GetFailedURL (repo_url repr owner repo))
            (send (Get (repo_url repr owner repo) token) fx))
     | Aborted \<Rightarrow>
         (Inl RemoteDisconnected, send (Get (repo_url repr owner repo) token) fx))"
  by (simp add: github_repo_exists_def Let_def urlopen_sent [OF assms]
      split: http_outcome.splits)

lemma github_create_repo_sent:
  assumes "refused (Post ''https://api.github.com/user/repos'' token repo) = None"
  shows "github_create_repo net repo token fx =
    (case net (requests fx @ [Post ''https://api.github.com/user/repos'' token repo]) of
       Status s \<Rightarrow>
         if 200 \<le> s \<and> s < 300
         then (Inr True, send (Post ''https://api.github.com/user/repos'' token repo) fx)
         else if s = 422
         then (Inr False,
               eprint (CreateReturned422 repo)
                 (send (Post ''https://api.github.com/user/repos'' token repo) fx))
         else (Inr False,
               eprint (PostFailedHTTP s)
                 (send (Post ''https://api.github.com/user/repos'' token repo) fx))
     | TransportFailure \<Rightarrow>
         (Inr False,
          eprint PostFailedURL (send (Post ''https://api.github.com/user/repos'' token repo) fx))
     | Aborted \<Rightarrow>
         (Inl RemoteDisconnected,
          send (Post ''https://api.github.com/user/repos'' token repo) fx))"
  by (simp add: github_create_repo_def Let_def urlopen_sent [OF assms]
      split: http_outcome.splits)

text \<open>
  The URL of a creation is a constant that \<open>http.client\<close> accepts, and its \<open>Authorization\<close>
  header is the one of the existence check that came before it: the creation that follows
  an accepted existence check is accepted.
\<close>

lemma refused_create:
  "refused (Post ''https://api.github.com/user/repos'' token name)
     = (if illegal_header_value (''token '' @ token) then Some ValueError else None)"
proof -
  have "selector ''https://api.github.com/user/repos'' = ''/user/repos''"
    by code_simp
  moreover have "\<not> list_ex disallowed_url_char ''/user/repos''"
    by code_simp
  moreover have "list_all is_ascii ''/user/repos''"
    by code_simp
  ultimately show ?thesis
    by (simp add: refused_def)
qed

lemma create_accepted_after_check:
  assumes "refused (Get url token) = None"
  shows "refused (Post ''https://api.github.com/user/repos'' token name) = None"
proof -
  from assms have legal: "\<not> illegal_header_value (authorization (Get url token))"
    by (auto simp: refused_def Let_def split: if_splits)
  have "\<not> illegal_header_value ''token ''"
    by code_simp
  with legal have "\<not> illegal_header_value (''token '' @ token)"
    by (cases "token = []") simp_all
  then show ?thesis
    by (simp add: refused_create)
qed

text \<open>One turn of the loop of step 5, for a reference whose existence check is refused
  and for one whose existence check is sent.\<close>

lemma ensure_repos_refused:
  assumes "refused (check_request repr token n) = Some err"
  shows "ensure_repos repr net token (n # rest) fx = ensure_repos repr net token rest fx"
  using github_repo_exists_refused [of repr "fst n" "snd n" token err net fx] assms
  by (simp add: check_request_def Let_def)

lemma ensure_repos_sent:
  assumes "refused (check_request repr token n) = None"
  shows "ensure_repos repr net token (n # rest) fx =
    (let get = check_request repr token n;
         post = create_request token n;
         url = repo_url repr (fst n) (snd n);
         fx1 = send get fx
     in case net (requests fx @ [get]) of
          Status s \<Rightarrow>
            if 200 \<le> s \<and> s < 300 then ensure_repos repr net token rest fx1
            else if s = 404 then
              (case net (requests fx @ [get, post]) of
                 Status c \<Rightarrow>
                   if 200 \<le> c \<and> c < 300
                   then ensure_repos repr net token rest
                          (print (CreatedRepository (fst n) (snd n)) (send post fx1))
                   else if c = 422
                   then ensure_repos repr net token rest
                          (eprint (CouldNotCreate (fst n) (snd n))
                            (eprint (CreateReturned422 (snd n)) (send post fx1)))
                   else ensure_repos repr net token rest
                          (eprint (CouldNotCreate (fst n) (snd n))
                            (eprint (PostFailedHTTP c) (send post fx1)))
               | TransportFailure \<Rightarrow>
                   ensure_repos repr net token rest
                     (eprint (CouldNotCreate (fst n) (snd n)) (eprint PostFailedURL (send post fx1)))
               | Aborted \<Rightarrow> (Some RemoteDisconnected, send post fx1))
            else ensure_repos repr net token rest (eprint (GetFailedHTTP url s) fx1)
        | TransportFailure \<Rightarrow> ensure_repos repr net token rest (eprint (GetFailedURL url) fx1)
        | Aborted \<Rightarrow> ensure_repos repr net token rest fx1)"
proof -
  have get: "refused (Get (repo_url repr (fst n) (snd n)) token) = None"
    using assms by (simp add: check_request_def)
  have post: "refused (Post ''https://api.github.com/user/repos'' token (snd n)) = None"
    using get by (rule create_accepted_after_check)
  have sent: "requests (send r fx) = requests fx @ [r]" for r
    by (simp add: send_def)
  show ?thesis
    by (simp add: Let_def check_request_def create_request_def github_repo_exists_sent [OF get]
        github_create_repo_sent [OF post] sent split: http_outcome.splits)
qed

lemma effects_requests [simp]:
  "requests (send r fx) = requests fx @ [r]"
  "requests (print m fx) = requests fx"
  "requests (eprint m fx) = requests fx"
  by (simp_all add: send_def print_def eprint_def)

text \<open>
  When no creation is aborted, the loop of step 5 ends without an exception.
  When moreover every existence check is accepted, its requests are those of
  \<open>check_then_create\<close>.
\<close>

lemma ensure_repos_completes:
  assumes "\<forall>sent n. net (sent @ [create_request token n]) \<noteq> Aborted"
  shows "fst (ensure_repos repr net token needed fx) = None"
proof (induction needed arbitrary: fx)
  case Nil
  then show ?case by simp
next
  case (Cons n needed)
  show ?case
  proof (cases "refused (check_request repr token n)")
    case (Some err)
    with Cons.IH show ?thesis
      by (simp add: ensure_repos_refused [OF Some] del: ensure_repos.simps)
  next
    case None
    have "net (requests fx @ [check_request repr token n, create_request token n]) \<noteq> Aborted"
      using assms [rule_format, of "requests fx @ [check_request repr token n]" n] by simp
    with Cons.IH show ?thesis
      by (simp add: ensure_repos_sent [OF None] Let_def del: ensure_repos.simps
          split: http_outcome.splits)
  qed
qed

lemma ensure_repos_requests:
  assumes "list_all (\<lambda>n. refused (check_request repr token n) = None) needed"
    and "\<forall>sent n. net (sent @ [create_request token n]) \<noteq> Aborted"
  shows "requests (snd (ensure_repos repr net token needed fx))
    = check_then_create net
        (map (\<lambda>n. (check_request repr token n, create_request token n)) needed) (requests fx)"
  using assms(1)
proof (induction needed arbitrary: fx)
  case Nil
  then show ?case by simp
next
  case (Cons n needed)
  from Cons.prems have acc: "refused (check_request repr token n) = None"
    and rest: "list_all (\<lambda>n. refused (check_request repr token n) = None) needed"
    by simp_all
  have "net (requests fx @ [check_request repr token n, create_request token n]) \<noteq> Aborted"
    using assms(2) [rule_format, of "requests fx @ [check_request repr token n]" n] by simp
  with Cons.IH [OF rest] show ?case
    by (simp add: ensure_repos_sent [OF acc] Let_def del: ensure_repos.simps
        split: http_outcome.splits)
qed

lemma check_then_create_gets:
  assumes "list_all (\<lambda>pair. is_get (fst pair) \<and> \<not> is_get (snd pair)) pairs"
  shows "filter is_get (check_then_create net pairs sent) = filter is_get sent @ map fst pairs"
  using assms by (induction pairs arbitrary: sent) simp_all

lemma ensure_step_completes:
  assumes "GH_PAT w = [] \<or> (\<forall>sent n. network w (sent @ [create_request (GH_PAT w) n]) \<noteq> Aborted)"
  shows "fst (ensure_step w needed fx) = None"
  using assms by (auto simp: ensure_step_def ensure_repos_completes)

text \<open>What a run that reads both files does, in terms of the two loops.\<close>

lemma update_readme_effects:
  assumes "fst (group_entries w items readme) = None"
  shows "\<exists>tail. effected (update_readme w items readme) =
      (snd (ensure_step w (repos_needed (fst (snd (group_entries w items readme))))
              (snd (snd (group_entries w items readme)))))
      \<lparr>printed := printed (snd (ensure_step w
          (repos_needed (fst (snd (group_entries w items readme))))
          (snd (snd (group_entries w items readme))))) @ tail\<rparr>
      \<and> (Stderr, PatNotSet) \<notin> set tail"
  using assms
  by (auto simp: update_readme_def Let_def print_def
      split: option.splits sum.splits intro: exI [of _ "[]"])

lemma update_readme_independent:
  assumes "GH_PAT w = []"
    and "\<forall>sent n. net (sent @ [create_request (strip pat) n]) \<noteq> Aborted"
  shows "ended (update_readme (w\<lparr>gh_pat_env := pat, network := net\<rparr>) items readme)
     = ended (update_readme w items readme) \<and>
   written (update_readme (w\<lparr>gh_pat_env := pat, network := net\<rparr>) items readme)
     = written (update_readme w items readme)"
proof -
  let ?w = "w\<lparr>gh_pat_env := pat, network := net\<rparr>"
  have "\<forall>sent n. network ?w (sent @ [create_request (GH_PAT ?w) n]) \<noteq> Aborted"
    using assms(2) by simp
  then have with_pat: "fst (ensure_step ?w needed fx) = None" for needed fx
    using ensure_step_completes [of ?w] by blast
  have without: "fst (ensure_step w needed fx) = None" for needed fx
    using assms(1) ensure_step_completes [of w] by blast
  show ?thesis
    by (simp add: update_readme_def Let_def with_pat without split: option.splits sum.splits)
qed

lemma main_independent:
  assumes "GH_PAT w = []"
    and "\<forall>sent n. net (sent @ [create_request (strip pat) n]) \<noteq> Aborted"
  shows "ended (main (w\<lparr>gh_pat_env := pat, network := net\<rparr>)) = ended (main w) \<and>
   written (main (w\<lparr>gh_pat_env := pat, network := net\<rparr>)) = written (main w)"
  using update_readme_independent [OF assms]
  by (simp add: main_def split: json_file.splits json.splits option.splits)


text \<open>
  C7. The existence check returns \<open>True\<close> for a 2xx status and \<open>False\<close> for 404, and for
  every other status and for a \<open>URLError\<close> it prints an error line before it raises. The
  claim says that every failure of the check is logged. An exchange that breaks once the
  request is sent raises an exception that is not a \<open>URLError\<close>: neither handler of
  \<open>github_repo_exists\<close> prints, and the handler of \<open>main\<close> (\<open>except Exception: continue\<close>)
  prints nothing of its own. In the run below every exchange is aborted: both
  repositories are checked and the run ends with status 0, but no line of the output
  tells of the two failed checks, while the same run with a server that cannot be reached
  logs both. A repository name with a space fails in the same silent way, before anything
  is sent.
\<close>

theorem aborted_check_not_logged:
  "fst (github_repo_exists no_repr (always Aborted) ''Thhundder'' (JStr ''r'') ''t'' no_effects)
     = Inl RemoteDisconnected \<and>
   printed (snd (github_repo_exists no_repr (always Aborted) ''Thhundder'' (JStr ''r'') ''t''
     no_effects)) = [] \<and>
   requests (effected (main (sample_world
      (Loaded (JList [project ''A'' ''py'' ''r'', project ''B'' ''ts'' ''q''])) (Some []) ''t''
      Aborted)))
     = [Get ''https://api.github.com/repos/Thhundder/r'' ''t'',
        Get ''https://api.github.com/repos/Thhundder/q'' ''t''] \<and>
   printed (effected (main (sample_world
      (Loaded (JList [project ''A'' ''py'' ''r'', project ''B'' ''ts'' ''q''])) (Some []) ''t''
      Aborted)))
     = [(Stderr, NoMarkersFound), (Stdout, NoChanges)] \<and>
   ended (main (sample_world
      (Loaded (JList [project ''A'' ''py'' ''r'', project ''B'' ''ts'' ''q''])) (Some []) ''t''
      Aborted)) = Exit 0 \<and>
   printed (effected (main (sample_world
      (Loaded (JList [project ''A'' ''py'' ''r'', project ''B'' ''ts'' ''q''])) (Some []) ''t''
      TransportFailure)))
     = [(Stderr, NoMarkersFound),
        (Stderr, GetFailedURL ''https://api.github.com/repos/Thhundder/r''),
        (Stderr, GetFailedURL ''https://api.github.com/repos/Thhundder/q''),
        (Stdout, NoChanges)] \<and>
   fst (github_repo_exists no_repr (always (Status 200)) ''Thhundder'' (JStr ''a b'') ''t''
     no_effects) = Inl InvalidURL \<and>
   printed (snd (github_repo_exists no_repr (always (Status 200)) ''Thhundder'' (JStr ''a b'') ''t''
     no_effects)) = []"
  by code_simp

text \<open>
  C3, as amended. With a credential, the reconciler goes through one repository reference
  for each valid entry, repeated references included, in the order of the entries in the
  input list. When \<open>http.client\<close> accepts every existence check and no creation is
  aborted, the requests of the run are exactly these: for each reference in turn one
  existence check and, when the server answers it with 404, one creation directly after
  it. So each reference is checked once, in the order of the entries.
\<close>

theorem repositories_checked_in_entry_order:
  assumes "GH_PAT w \<noteq> []" and "projects_json w = Loaded (JList items)"
    and "repos_collected w = Some needed"
    and "list_all (\<lambda>n. refused (check_request (py_repr w) (GH_PAT w) n) = None) needed"
    and "\<forall>sent n. network w (sent @ [create_request (GH_PAT w) n]) \<noteq> Aborted"
  shows "needed = map (\<lambda>item. (GH_OWNER w, entry_field item ''repo''))
                    (filter (valid_entry (py_repr w)) items) \<and>
    requests (effected (main w))
      = check_then_create (network w)
          (map (\<lambda>n. (check_request (py_repr w) (GH_PAT w) n, create_request (GH_PAT w) n)) needed)
          [] \<and>
    filter is_get (requests (effected (main w)))
      = map (check_request (py_repr w) (GH_PAT w)) needed"
proof -
  let ?pairs = "map (\<lambda>n. (check_request (py_repr w) (GH_PAT w) n, create_request (GH_PAT w) n))
    needed"
  from repos_collected_Some [OF assms(2,3)] obtain readme where
    r: "readme_md w = Some readme" and
    ok: "fst (group_entries w items readme) = None" and
    n: "needed = repos_needed (fst (snd (group_entries w items readme)))"
    by blast
  from n group_entries_repos [OF ok] have 1:
    "needed = map (\<lambda>item. (GH_OWNER w, entry_field item ''repo''))
                    (filter (valid_entry (py_repr w)) items)"
    by simp
  have "requests (snd (ensure_step w needed fx)) = check_then_create (network w) ?pairs (requests fx)"
    for fx
  proof (cases "needed = []")
    case True
    then show ?thesis by (simp add: ensure_step_def)
  next
    case False
    with assms(1) ensure_repos_requests [OF assms(4,5)] show ?thesis
      by (simp add: ensure_step_def)
  qed
  moreover from update_readme_effects [OF ok] have
    "requests (effected (update_readme w items readme))
      = requests (snd (ensure_step w needed (snd (snd (group_entries w items readme)))))"
    using n by auto
  ultimately have "requests (effected (update_readme w items readme))
      = check_then_create (network w) ?pairs []"
    using group_entries_sends_nothing [of w items readme] by simp
  then have 2: "requests (effected (main w)) = check_then_create (network w) ?pairs []"
    using assms(2) r by (simp add: main_def)
  have "list_all (\<lambda>pair. is_get (fst pair) \<and> \<not> is_get (snd pair)) ?pairs"
    by (simp add: list_all_iff check_request_def create_request_def)
  from check_then_create_gets [OF this, of "network w" "[]"] 2
  have 3: "filter is_get (requests (effected (main w)))
      = map (check_request (py_repr w) (GH_PAT w)) needed"
    by (simp add: comp_def)
  from 1 2 3 show ?thesis by simp
qed

theorem repositories_checked_in_entry_order_witness:
  "GH_PAT (sample_server
      (Loaded (JList [project ''A'' ''py'' ''r'', project ''B'' ''ts'' ''q'',
                      project ''C'' ''py'' ''r''])) (Some []) ''t''
      (server_without [''https://api.github.com/repos/Thhundder/q''])) \<noteq> [] \<and>
   repos_collected (sample_server
      (Loaded (JList [project ''A'' ''py'' ''r'', project ''B'' ''ts'' ''q'',
                      project ''C'' ''py'' ''r''])) (Some []) ''t''
      (server_without [''https://api.github.com/repos/Thhundder/q'']))
     = Some [(''Thhundder'', JStr ''r''), (''Thhundder'', JStr ''q''), (''Thhundder'', JStr ''r'')] \<and>
   list_all (\<lambda>n. refused (check_request no_repr ''t'' n) = None)
     [(''Thhundder'', JStr ''r''), (''Thhundder'', JStr ''q''), (''Thhundder'', JStr ''r'')] \<and>
   (\<forall>sent n. server_without [''https://api.github.com/repos/Thhundder/q'']
       (sent @ [create_request ''t'' n]) \<noteq> Aborted) \<and>
   requests (effected (main (sample_server
      (Loaded (JList [project ''A'' ''py'' ''r'', project ''B'' ''ts'' ''q'',
                      project ''C'' ''py'' ''r''])) (Some []) ''t''
      (server_without [''https://api.github.com/repos/Thhundder/q'']))))
     = [Get ''https://api.github.com/repos/Thhundder/r'' ''t'',
        Get ''https://api.github.com/repos/Thhundder/q'' ''t'',
        Post ''https://api.github.com/user/repos'' ''t'' (JStr ''q''),
        Get ''https://api.github.com/repos/Thhundder/r'' ''t'']"
proof -
  let ?net = "server_without [''https://api.github.com/repos/Thhundder/q'']"
  let ?w = "sample_server
      (Loaded (JList [project ''A'' ''py'' ''r'', project ''B'' ''ts'' ''q'',
                      project ''C'' ''py'' ''r''])) (Some []) ''t'' ?net"
  let ?needed = "[(''Thhundder'', JStr ''r''), (''Thhundder'', JStr ''q''), (''Thhundder'', JStr ''r'')]"
  have t: "GH_PAT ?w = ''t''"
    by code_simp
  have f: "py_repr ?w = no_repr" "network ?w = ?net"
    by (simp_all add: sample_server_def)
  have h1: "GH_PAT ?w \<noteq> []"
    by (simp add: t)
  have h2: "projects_json ?w = Loaded (JList [project ''A'' ''py'' ''r'', project ''B'' ''ts'' ''q'',
                      project ''C'' ''py'' ''r''])"
    by (simp add: sample_server_def)
  have h3: "repos_collected ?w = Some ?needed"
    by code_simp
  have h4: "list_all (\<lambda>n. refused (check_request no_repr ''t'' n) = None) ?needed"
    by code_simp
  have h5: "\<forall>sent n. ?net (sent @ [create_request ''t'' n]) \<noteq> Aborted"
    by (simp add: server_without_def create_request_def)
  have e: "check_then_create ?net
      (map (\<lambda>n. (check_request no_repr ''t'' n, create_request ''t'' n)) ?needed) []
     = [Get ''https://api.github.com/repos/Thhundder/r'' ''t'',
        Get ''https://api.github.com/repos/Thhundder/q'' ''t'',
        Post ''https://api.github.com/user/repos'' ''t'' (JStr ''q''),
        Get ''https://api.github.com/repos/Thhundder/r'' ''t'']"
    by code_simp
  have h4': "list_all (\<lambda>n. refused (check_request (py_repr ?w) (GH_PAT ?w) n) = None) ?needed"
    unfolding t f by (rule h4)
  have h5': "\<forall>sent n. network ?w (sent @ [create_request (GH_PAT ?w) n]) \<noteq> Aborted"
    unfolding t f by (rule h5)
  from repositories_checked_in_entry_order [OF h1 h2 h3 h4' h5']
  have "requests (effected (main ?w))
     = check_then_create (network ?w)
         (map (\<lambda>n. (check_request (py_repr ?w) (GH_PAT ?w) n, create_request (GH_PAT ?w) n))
           ?needed) []"
    by (rule conjunct1 [OF conjunct2])
  then have "requests (effected (main ?w))
     = [Get ''https://api.github.com/repos/Thhundder/r'' ''t'',
        Get ''https://api.github.com/repos/Thhundder/q'' ''t'',
        Post ''https://api.github.com/user/repos'' ''t'' (JStr ''q''),
        Get ''https://api.github.com/repos/Thhundder/r'' ''t'']"
    unfolding t f e .
  with h1 h3 h4 h5 show ?thesis
    by blast
qed

text \<open>
  C3 as stated fails: \<open>repos_needed\<close> is a list to which every valid entry appends, so a
  repository that two entries name is checked twice.
\<close>

theorem repositories_checked_in_entry_order_counterexample:
  "requests (effected (main (sample_world
      (Loaded (JList [project ''A'' ''py'' ''r'', project ''B'' ''ts'' ''r''])) (Some []) ''t''
      (Status 200))))
     = [Get ''https://api.github.com/repos/Thhundder/r'' ''t'',
        Get ''https://api.github.com/repos/Thhundder/r'' ''t''] \<and>
   \<not> distinct (requests (effected (main (sample_world
      (Loaded (JList [project ''A'' ''py'' ''r'', project ''B'' ''ts'' ''r''])) (Some []) ''t''
      (Status 200)))))"
  by code_simp

text \<open>
  C8, as amended. Without a credential no request is made, and the run ends as, and
  writes what, the run with any credential does in which no creation is aborted, whatever
  else the server answers. The warning that the step is skipped is printed once
  when step 4 collected a repository reference, and it is not printed when it collected
  none or when the run ended before step 5.
\<close>

theorem no_credential_skips_reconciliation:
  assumes "GH_PAT w = []"
  shows "requests (effected (main w)) = [] \<and>
    ((\<forall>sent n. net (sent @ [create_request (strip pat) n]) \<noteq> Aborted) \<longrightarrow>
       ended (main (w\<lparr>gh_pat_env := pat, network := net\<rparr>)) = ended (main w) \<and>
       written (main (w\<lparr>gh_pat_env := pat, network := net\<rparr>)) = written (main w)) \<and>
    times_printed (Stderr, PatNotSet) (effected (main w))
      = (case repos_collected w of None \<Rightarrow> 0 | Some needed \<Rightarrow> if needed = [] then 0 else 1)"
proof -
  have fatal_case: "\<And>m. m \<noteq> PatNotSet \<Longrightarrow> requests (effected (fatal m)) = [] \<and>
      times_printed (Stderr, PatNotSet) (effected (fatal m)) = 0"
    by (simp add: fatal_def eprint_def no_effects_def times_printed_def)
  have run: "requests (effected (update_readme w items readme)) = [] \<and>
      times_printed (Stderr, PatNotSet) (effected (update_readme w items readme))
        = (if fst (group_entries w items readme) = None
           then (if repos_needed (fst (snd (group_entries w items readme))) = [] then 0 else 1)
           else 0)" for items readme
  proof (cases "fst (group_entries w items readme)")
    case (Some err)
    then show ?thesis
      using update_readme_raises [OF Some] group_entries_printed [of w items readme]
      by (simp add: update_readme_def Let_def)
  next
    case None
    let ?g = "group_entries w items readme"
    from update_readme_effects [OF None] obtain tail where
      e: "effected (update_readme w items readme) =
        (snd (ensure_step w (repos_needed (fst (snd ?g))) (snd (snd ?g))))
        \<lparr>printed := printed (snd (ensure_step w (repos_needed (fst (snd ?g))) (snd (snd ?g))))
            @ tail\<rparr>" and
      t: "(Stderr, PatNotSet) \<notin> set tail"
      by blast
    have ft: "filter (\<lambda>l. l = (Stderr, PatNotSet)) tail = []"
      using t by (auto simp: filter_empty_conv)
    show ?thesis
      using None assms e ft group_entries_sends_nothing [of w items readme]
        group_entries_printed [of w items readme]
      by (simp add: ensure_step_def times_printed_def eprint_def)
  qed
  have 1: "requests (effected (main w)) = [] \<and>
    times_printed (Stderr, PatNotSet) (effected (main w))
      = (case repos_collected w of None \<Rightarrow> 0 | Some needed \<Rightarrow> if needed = [] then 0 else 1)"
    using fatal_case run
    by (auto simp: main_def repos_collected_def Let_def
        split: json_file.splits json.splits option.splits)
  from 1 main_independent [OF assms, of net pat] show ?thesis
    by simp
qed

theorem no_credential_skips_reconciliation_witness:
  "GH_PAT (sample_world (Loaded (JList [project ''A'' ''py'' ''r'']))
      (Some ''<!-- PROJECTS:python:START -->old<!-- PROJECTS:python:END -->'') '' '' (Status 200))
     = [] \<and>
   (\<forall>sent n. server_without [''https://api.github.com/repos/Thhundder/r'']
       (sent @ [create_request (strip ''t'') n]) \<noteq> Aborted) \<and>
   repos_collected (sample_world (Loaded (JList [project ''A'' ''py'' ''r'']))
      (Some ''<!-- PROJECTS:python:START -->old<!-- PROJECTS:python:END -->'') '' '' (Status 200))
     = Some [(''Thhundder'', JStr ''r'')] \<and>
   requests (effected (main (sample_world (Loaded (JList [project ''A'' ''py'' ''r'']))
      (Some ''<!-- PROJECTS:python:START -->old<!-- PROJECTS:python:END -->'') '' ''
      (Status 200)))) = [] \<and>
   times_printed (Stderr, PatNotSet) (effected (main (sample_world
      (Loaded (JList [project ''A'' ''py'' ''r'']))
      (Some ''<!-- PROJECTS:python:START -->old<!-- PROJECTS:python:END -->'') '' ''
      (Status 200)))) = 1 \<and>
   requests (effected (main ((sample_world (Loaded (JList [project ''A'' ''py'' ''r'']))
      (Some ''<!-- PROJECTS:python:START -->old<!-- PROJECTS:python:END -->'') '' '' (Status 200))
      \<lparr>gh_pat_env := ''t'',
        network := server_without [''https://api.github.com/repos/Thhundder/r'']\<rparr>)))
     = [Get ''https://api.github.com/repos/Thhundder/r'' ''t'',
        Post ''https://api.github.com/user/repos'' ''t'' (JStr ''r'')] \<and>
   ended (main ((sample_world (Loaded (JList [project ''A'' ''py'' ''r'']))
      (Some ''<!-- PROJECTS:python:START -->old<!-- PROJECTS:python:END -->'') '' '' (Status 200))
      \<lparr>gh_pat_env := ''t'',
        network := server_without [''https://api.github.com/repos/Thhundder/r'']\<rparr>))
     = ended (main (sample_world (Loaded (JList [project ''A'' ''py'' ''r'']))
      (Some ''<!-- PROJECTS:python:START -->old<!-- PROJECTS:python:END -->'') '' ''
      (Status 200))) \<and>
   written (main ((sample_world (Loaded (JList [project ''A'' ''py'' ''r'']))
      (Some ''<!-- PROJECTS:python:START -->old<!-- PROJECTS:python:END -->'') '' '' (Status 200))
      \<lparr>gh_pat_env := ''t'',
        network := server_without [''https://api.github.com/repos/Thhundder/r'']\<rparr>))
     = written (main (sample_world (Loaded (JList [project ''A'' ''py'' ''r'']))
      (Some ''<!-- PROJECTS:python:START -->old<!-- PROJECTS:python:END -->'') '' ''
      (Status 200))) \<and>
   written (main (sample_world (Loaded (JList [project ''A'' ''py'' ''r'']))
      (Some ''<!-- PROJECTS:python:START -->old<!-- PROJECTS:python:END -->'') '' ''
      (Status 200))) \<noteq> None"
proof -
  let ?net = "server_without [''https://api.github.com/repos/Thhundder/r'']"
  let ?w = "sample_world (Loaded (JList [project ''A'' ''py'' ''r'']))
      (Some ''<!-- PROJECTS:python:START -->old<!-- PROJECTS:python:END -->'') '' '' (Status 200)"
  have h: "GH_PAT ?w = []"
    by code_simp
  have a: "\<forall>sent n. ?net (sent @ [create_request (strip ''t'') n]) \<noteq> Aborted"
    by (simp add: server_without_def create_request_def)
  have c: "repos_collected ?w = Some [(''Thhundder'', JStr ''r'')]"
    by code_simp
  have s: "requests (effected (main (?w\<lparr>gh_pat_env := ''t'', network := ?net\<rparr>)))
     = [Get ''https://api.github.com/repos/Thhundder/r'' ''t'',
        Post ''https://api.github.com/user/repos'' ''t'' (JStr ''r'')]"
    by code_simp
  have d: "written (main ?w) \<noteq> None"
    by code_simp
  from no_credential_skips_reconciliation [OF h, of ?net "''t''"] a
  have "requests (effected (main ?w)) = [] \<and>
    ended (main (?w\<lparr>gh_pat_env := ''t'', network := ?net\<rparr>)) = ended (main ?w) \<and>
    written (main (?w\<lparr>gh_pat_env := ''t'', network := ?net\<rparr>)) = written (main ?w) \<and>
    times_printed (Stderr, PatNotSet) (effected (main ?w)) = 1"
    by (simp add: c)
  with h a c s d show ?thesis
    by blast
qed

text \<open>
  C8 as stated fails in the warning: with no repository reference to reconcile the run
  prints no warning about the credential.
\<close>

theorem no_credential_skips_reconciliation_counterexample:
  "GH_PAT (sample_world (Loaded (JList [])) (Some []) [] (Status 200)) = [] \<and>
   printed (effected (main (sample_world (Loaded (JList [])) (Some []) [] (Status 200))))
     = [(Stderr, NoMarkersFound), (Stdout, NoChanges)] \<and>
   times_printed (Stderr, PatNotSet)
     (effected (main (sample_world (Loaded (JList [])) (Some []) [] (Status 200)))) = 0"
  by code_simp

text \<open>
  What the last two statements leave out: an aborted creation raises an exception that
  \<open>github_create_repo\<close> does not catch and that nothing around its call in \<open>main\<close>
  catches, so the run ends there with status 1 and the document is not written.
\<close>

lemma aborted_creation_ends_run:
  "ended (main (sample_server (Loaded (JList [project ''A'' ''py'' ''r'', project ''B'' ''ts'' ''q'']))
      (Some ''<!-- PROJECTS:python:START -->old<!-- PROJECTS:python:END -->'') ''t''
      (by_method (Status 404) Aborted))) = Uncaught RemoteDisconnected \<and>
   requests (effected (main (sample_server
      (Loaded (JList [project ''A'' ''py'' ''r'', project ''B'' ''ts'' ''q'']))
      (Some ''<!-- PROJECTS:python:START -->old<!-- PROJECTS:python:END -->'') ''t''
      (by_method (Status 404) Aborted))))
     = [Get ''https://api.github.com/repos/Thhundder/r'' ''t'',
        Post ''https://api.github.com/user/repos'' ''t'' (JStr ''r'')] \<and>
   written (main (sample_server (Loaded (JList [project ''A'' ''py'' ''r'', project ''B'' ''ts'' ''q'']))
      (Some ''<!-- PROJECTS:python:START -->old<!-- PROJECTS:python:END -->'') ''t''
      (by_method (Status 404) Aborted))) = None"
  by code_simp


section \<open>Properties of the badge groups\<close>

lemma same_repo_equiv:
  "same_repo a a" "same_repo a b \<Longrightarrow> same_repo b a"
  "same_repo a b \<Longrightarrow> same_repo b c \<Longrightarrow> same_repo a c"
  by (simp_all add: same_repo_def py_eq_def)

lemma set_first_per_repo: "set (first_per_repo es) \<subseteq> set es"
  by (induction es rule: first_per_repo.induct) auto

lemma exists_later_same_repo:
  assumes "\<not> same_repo x e"
  shows "(\<exists>a \<in> set (filter (\<lambda>later. \<not> same_repo later e) es). same_repo a x)
    \<longleftrightarrow> (\<exists>a \<in> set es. same_repo a x)"
proof
  assume "\<exists>a \<in> set (filter (\<lambda>later. \<not> same_repo later e) es). same_repo a x"
  then show "\<exists>a \<in> set es. same_repo a x" by auto
next
  assume "\<exists>a \<in> set es. same_repo a x"
  then obtain a where a: "a \<in> set es" "same_repo a x" by blast
  have "\<not> same_repo a e"
  proof
    assume "same_repo a e"
    with a(2) have "same_repo x e"
      using same_repo_equiv(2,3) by blast
    with assms show False by simp
  qed
  with a show "\<exists>a \<in> set (filter (\<lambda>later. \<not> same_repo later e) es). same_repo a x"
    by auto
qed

lemma first_per_repo_covers:
  "(\<exists>b \<in> set (first_per_repo es). same_repo b x) \<longleftrightarrow> (\<exists>e \<in> set es. same_repo e x)"
proof (induction es rule: first_per_repo.induct)
  case 1
  then show ?case by simp
next
  case (2 e es)
  show ?case
  proof (cases "same_repo e x")
    case True
    then show ?thesis by auto
  next
    case False
    then have "\<not> same_repo x e" using same_repo_equiv(2) by blast
    from exists_later_same_repo [OF this, of es] 2 False show ?thesis by simp
  qed
qed

lemma first_per_repo_snoc:
  "first_per_repo (es @ [x]) =
     (if \<exists>e \<in> set es. same_repo e x then first_per_repo es else first_per_repo es @ [x])"
proof (induction es rule: first_per_repo.induct)
  case 1
  then show ?case by simp
next
  case (2 e es)
  let ?rest = "filter (\<lambda>later. \<not> same_repo later e) es"
  show ?case
  proof (cases "same_repo x e")
    case True
    then have "same_repo e x" by (rule same_repo_equiv(2))
    with True show ?thesis by auto
  next
    case False
    then have ne: "\<not> same_repo e x" using same_repo_equiv(2) by blast
    from exists_later_same_repo [OF False, of es] 2 False ne show ?thesis by simp
  qed
qed

lemma first_per_repo_once:
  "e \<in> set es \<Longrightarrow> length (filter (\<lambda>b. same_repo b e) (first_per_repo es)) = 1"
proof (induction es rule: first_per_repo.induct)
  case 1
  then show ?case by simp
next
  case (2 a es)
  let ?rest = "filter (\<lambda>later. \<not> same_repo later a) es"
  show ?case
  proof (cases "same_repo a e")
    case True
    have "\<not> same_repo b e" if "b \<in> set (first_per_repo ?rest)" for b
    proof
      assume "same_repo b e"
      with True have "same_repo b a" using same_repo_equiv by blast
      moreover from that set_first_per_repo have "b \<in> set ?rest" by blast
      ultimately show False by simp
    qed
    then have "filter (\<lambda>b. same_repo b e) (first_per_repo ?rest) = []"
      by (simp add: filter_empty_conv)
    with True show ?thesis by simp
  next
    case False
    then have "\<not> same_repo e a" using same_repo_equiv(2) by blast
    with "2.prems" False have "e \<in> set ?rest"
      using same_repo_equiv(1) by auto
    with "2.IH" False show ?thesis by simp
  qed
qed

lemma find_filter_implied:
  "(\<And>x. P x \<Longrightarrow> Q x) \<Longrightarrow> find P (filter Q xs) = find P xs"
  by (induction xs) auto

lemma first_per_repo_first:
  "find (\<lambda>b. same_repo b x) (first_per_repo es) = find (\<lambda>e. same_repo e x) es"
proof (induction es rule: first_per_repo.induct)
  case 1
  then show ?case by simp
next
  case (2 a es)
  show ?case
  proof (cases "same_repo a x")
    case True
    then show ?thesis by simp
  next
    case False
    have "find (\<lambda>e. same_repo e x) (filter (\<lambda>later. \<not> same_repo later a) es)
        = find (\<lambda>e. same_repo e x) es"
    proof (rule find_filter_implied)
      fix y assume "same_repo y x"
      with False show "\<not> same_repo y a" using same_repo_equiv by blast
    qed
    with 2 False show ?thesis by simp
  qed
qed

lemma first_per_repo_subseq: "subseq (first_per_repo es) es"
proof (induction es rule: first_per_repo.induct)
  case 1
  then show ?case by simp
next
  case (2 e es)
  have "subseq (filter (\<lambda>later. \<not> same_repo later e) es) es"
    by simp
  with 2 have "subseq (first_per_repo (filter (\<lambda>later. \<not> same_repo later e) es)) es"
    using subseq_order.order_trans by blast
  then show ?case by simp
qed

lemma add_project_other_key:
  assumes "add_project badge owner key repo g = Inr g'" and "k \<noteq> key"
  shows "map_of (badges_by_key g') k = map_of (badges_by_key g) k \<and>
    map_of (seen_by_key g') k = map_of (seen_by_key g) k"
  using assms
  by (auto simp: add_project_def Let_def update_conv' split: option.splits if_splits)

lemma add_project_new_key:
  assumes "add_project badge owner key repo g = Inr g'"
    and "map_of (badges_by_key g) key = None"
  shows "map_of (badges_by_key g') key = Some [badge] \<and> map_of (seen_by_key g') key = Some [repo]"
  using assms
  by (auto simp: add_project_def Let_def update_conv' split: option.splits if_splits)

lemma add_project_known_key:
  assumes "add_project badge owner key repo g = Inr g'"
    and "map_of (badges_by_key g) key = Some badges"
    and "map_of (seen_by_key g) key = Some seen"
  shows "map_of (badges_by_key g') key
      = Some (if list_ex (py_eq repo) seen then badges else badges @ [badge]) \<and>
    map_of (seen_by_key g') key
      = Some (if list_ex (py_eq repo) seen then seen else seen @ [repo])"
  using assms
  by (auto simp: add_project_def Let_def update_conv' split: option.splits if_splits)

lemma entries_for_snoc:
  "entries_for repr key (items @ [item]) =
     (if valid_entry repr item \<and> entry_key repr item = Some key
      then entries_for repr key items @ [item] else entries_for repr key items)"
  by (simp add: entries_for_def)

lemma seen_holds_repo:
  "list_ex (py_eq (entry_field item ''repo''))
      (map (\<lambda>e. entry_field e ''repo'') (first_per_repo es))
    \<longleftrightarrow> (\<exists>e \<in> set es. same_repo e item)"
proof -
  have "list_ex (py_eq (entry_field item ''repo''))
      (map (\<lambda>e. entry_field e ''repo'') (first_per_repo es))
    \<longleftrightarrow> (\<exists>b \<in> set (first_per_repo es). same_repo b item)"
    by (auto simp: list_ex_iff same_repo_def py_eq_def intro: sym)
  then show ?thesis
    by (simp add: first_per_repo_covers)
qed

lemma add_project_expected:
  assumes inv: "\<And>k. map_of (badges_by_key g) k = expected_badges repr owner k items \<and>
      map_of (seen_by_key g) k = expected_seen repr k items"
    and valid: "valid_entry repr item" and key: "entry_key repr item = Some key"
    and add: "add_project (entry_badge repr owner item) owner key (entry_field item ''repo'') g
      = Inr g'"
  shows "map_of (badges_by_key g') k = expected_badges repr owner k (items @ [item]) \<and>
    map_of (seen_by_key g') k = expected_seen repr k (items @ [item])"
proof (cases "k = key")
  case False
  with add_project_other_key [OF add False] inv [of k] key show ?thesis
    by (simp add: expected_badges_def expected_seen_def entries_for_snoc)
next
  case True
  let ?es = "entries_for repr key items"
  have snoc: "entries_for repr key (items @ [item]) = ?es @ [item]"
    using valid key by (simp add: entries_for_snoc)
  show ?thesis
  proof (cases "?es = []")
    case True
    with inv [of key] have "map_of (badges_by_key g) key = None"
      by (simp add: expected_badges_def)
    from add_project_new_key [OF add this] True snoc \<open>k = key\<close> show ?thesis
      by (simp add: expected_badges_def expected_seen_def)
  next
    case False
    with inv [of key] have
      b: "map_of (badges_by_key g) key = Some (map (entry_badge repr owner) (first_per_repo ?es))"
      and s: "map_of (seen_by_key g) key
        = Some (map (\<lambda>e. entry_field e ''repo'') (first_per_repo ?es))"
      by (simp_all add: expected_badges_def expected_seen_def)
    from add_project_known_key [OF add b s] snoc \<open>k = key\<close> show ?thesis
      by (simp add: expected_badges_def expected_seen_def seen_holds_repo first_per_repo_snoc)
  qed
qed

lemma process_entry_expected:
  assumes inv: "\<And>k. map_of (badges_by_key g) k = expected_badges repr owner k items \<and>
      map_of (seen_by_key g) k = expected_seen repr k items"
    and step: "process_entry repr owner idx item (g, fx) = Inr (g', fx')"
  shows "map_of (badges_by_key g') k = expected_badges repr owner k (items @ [item]) \<and>
    map_of (seen_by_key g') k = expected_seen repr k (items @ [item])"
proof (cases "valid_entry repr item")
  case False
  with step have "g' = g"
    by (cases item)
      (auto simp: process_entry_def valid_entry_def entry_field_def
        split: sum.splits if_splits option.splits)
  with False inv [of k] show ?thesis
    by (simp add: expected_badges_def expected_seen_def entries_for_snoc)
next
  case True
  then obtain key where key: "entry_key repr item = Some key"
    by (cases item) (auto simp: valid_entry_def entry_key_def)
  from True key step have
    "add_project (entry_badge repr owner item) owner key (entry_field item ''repo'') g = Inr g'"
    by (cases item)
      (auto simp: process_entry_def valid_entry_def entry_field_def entry_key_def entry_badge_def
        split: sum.splits if_splits option.splits)
  from add_project_expected [OF inv True key this] show ?thesis .
qed

lemma entry_loop_expected:
  assumes "\<And>k. map_of (badges_by_key g) k = expected_badges repr owner k before \<and>
      map_of (seen_by_key g) k = expected_seen repr k before"
    and "entry_loop repr owner idx items (g, fx) = (None, g', fx')"
  shows "map_of (badges_by_key g') k = expected_badges repr owner k (before @ items) \<and>
    map_of (seen_by_key g') k = expected_seen repr k (before @ items)"
  using assms
proof (induction items arbitrary: idx g fx before k)
  case Nil
  then show ?case by simp
next
  case (Cons item items)
  from Cons.prems(2) obtain g1 fx1 where
    step: "process_entry repr owner idx item (g, fx) = Inr (g1, fx1)" and
    rest: "entry_loop repr owner (Suc idx) items (g1, fx1) = (None, g', fx')"
    by (auto split: sum.splits)
  have "\<And>k. map_of (badges_by_key g1) k = expected_badges repr owner k (before @ [item]) \<and>
      map_of (seen_by_key g1) k = expected_seen repr k (before @ [item])"
    using process_entry_expected [OF Cons.prems(1) step] by blast
  from Cons.IH [OF this rest] show ?case by simp
qed

text \<open>
  C6. When the loop over the entries raises nothing, the badge group of a key holds the
  badges of the valid entries for that key, in input order, less every entry whose \<open>repo\<close>
  an earlier entry for the key has: for each \<open>repo\<close> named by an entry for the key exactly
  one entry is kept, it is the first entry for the key with that \<open>repo\<close>, and the kept
  entries stand in the order of the input list.
\<close>

theorem badge_groups_deduplicated:
  assumes "entry_loop repr owner idx items (empty_groups, fx) = (None, g, fx')"
  shows "map_of (badges_by_key g) key =
      (if entries_for repr key items = [] then None
       else Some (map (entry_badge repr owner) (first_per_repo (entries_for repr key items)))) \<and>
    (\<forall>e \<in> set (entries_for repr key items).
       length (filter (\<lambda>kept. same_repo kept e) (first_per_repo (entries_for repr key items))) = 1 \<and>
       find (\<lambda>kept. same_repo kept e) (first_per_repo (entries_for repr key items))
         = find (\<lambda>entry. same_repo entry e) (entries_for repr key items)) \<and>
    subseq (first_per_repo (entries_for repr key items)) (entries_for repr key items)"
proof -
  have "\<And>k. map_of (badges_by_key empty_groups) k = expected_badges repr owner k [] \<and>
      map_of (seen_by_key empty_groups) k = expected_seen repr k []"
    by (simp add: empty_groups_def expected_badges_def expected_seen_def entries_for_def)
  from entry_loop_expected [OF this assms, of key]
  have "map_of (badges_by_key g) key = expected_badges repr owner key items"
    by simp
  then show ?thesis
    by (simp add: expected_badges_def first_per_repo_once first_per_repo_first
        first_per_repo_subseq)
qed

theorem badge_groups_deduplicated_witness:
  "fst (entry_loop no_repr ''o'' 1
     [project ''A'' ''py'' ''r'', project ''B'' ''python'' ''r'', project ''C'' ''py'' ''q'']
     (empty_groups, no_effects)) = None \<and>
   entries_for no_repr ''python''
     [project ''A'' ''py'' ''r'', project ''B'' ''python'' ''r'', project ''C'' ''py'' ''q'']
     = [project ''A'' ''py'' ''r'', project ''B'' ''python'' ''r'', project ''C'' ''py'' ''q''] \<and>
   map_of (badges_by_key (fst (snd (entry_loop no_repr ''o'' 1
     [project ''A'' ''py'' ''r'', project ''B'' ''python'' ''r'', project ''C'' ''py'' ''q'']
     (empty_groups, no_effects))))) ''python''
     = Some [entry_badge no_repr ''o'' (project ''A'' ''py'' ''r''),
             entry_badge no_repr ''o'' (project ''C'' ''py'' ''q'')]"
proof -
  let ?items = "[project ''A'' ''py'' ''r'', project ''B'' ''python'' ''r'',
    project ''C'' ''py'' ''q'']"
  let ?run = "entry_loop no_repr ''o'' 1 ?items (empty_groups, no_effects)"
  have ok: "fst ?run = None"
    by code_simp
  then have run: "?run = (None, fst (snd ?run), snd (snd ?run))"
    by (metis prod.collapse)
  have e: "entries_for no_repr ''python'' ?items = ?items"
    by code_simp
  have f: "first_per_repo ?items = [project ''A'' ''py'' ''r'', project ''C'' ''py'' ''q'']"
    by code_simp
  from badge_groups_deduplicated [OF run, of "''python''"] ok e f show ?thesis
    by simp
qed

section \<open>Properties of the exit status\<close>

lemma plain_append [simp]: "plain (a @ b) \<longleftrightarrow> plain a \<and> plain b"
  by (auto simp: plain_def)

lemma plain_Nil [simp]: "plain []"
  by (simp add: plain_def)
















lemma plain_groups_repos [simp]:
  "plain_groups (g\<lparr>repos_needed := needed\<rparr>) = plain_groups g"
  by (simp add: plain_groups_def)










section \<open>The scanner and the replacer disagree on the sentinels\<close>

text \<open>
  C1 says that the region of every marker key the scanner finds is rewritten. The
  scanner accepts any white space, or none, inside a sentinel (\<open>\s*\<close>), while the
  replacer looks for the sentinel written with single spaces. At the document below the
  scanner finds the key \<open>cpp\<close>, the replacer returns the document as it is for every
  content, so no run writes the document, and a run with no entry leaves the stale \<open>OLD\<close>
  in place and reports no change.
\<close>

theorem spaced_sentinels_not_rewritten:
  "collect_readme_marker_keys ''<!--PROJECTS:cpp:START-->OLD<!--PROJECTS:cpp:END-->'' = [''cpp''] \<and>
   (\<forall>inner. replace_between_markers ''<!--PROJECTS:cpp:START-->OLD<!--PROJECTS:cpp:END-->''
      ''cpp'' inner = Inr ''<!--PROJECTS:cpp:START-->OLD<!--PROJECTS:cpp:END-->'') \<and>
   written (main (w\<lparr>readme_md := Some ''<!--PROJECTS:cpp:START-->OLD<!--PROJECTS:cpp:END-->''\<rparr>))
     = None \<and>
   ended (main (sample_world (Loaded (JList []))
      (Some ''<!--PROJECTS:cpp:START-->OLD<!--PROJECTS:cpp:END-->'') [] (Status 200))) = Exit 0 \<and>
   printed (effected (main (sample_world (Loaded (JList []))
      (Some ''<!--PROJECTS:cpp:START-->OLD<!--PROJECTS:cpp:END-->'') [] (Status 200))))
     = [(Stdout, NoChanges)]"
proof -
  let ?doc = "''<!--PROJECTS:cpp:START-->OLD<!--PROJECTS:cpp:END-->''"
  have keys: "collect_readme_marker_keys ?doc = [''cpp'']"
    by code_simp
  have "pattern_search (start_marker ''cpp'') (end_marker ''cpp'') ?doc = None"
    by code_simp
  then have same: "replace_between_markers ?doc ''cpp'' inner = Inr ?doc" for inner
    by (simp add: replace_between_markers_def Let_def)
  then have inject: "inject_badges by_key [''cpp''] ?doc = Inr ?doc" for by_key
    by (simp add: Let_def)
  have "written (update_readme w' items ?doc) = None" for w' items
    by (simp add: update_readme_def Let_def keys inject del: inject_badges.simps
        split: option.splits)
  then have unwritten: "written (main (w\<lparr>readme_md := Some ?doc\<rparr>)) = None"
    by (simp add: main_def fatal_def split: json_file.splits json.splits)
  have run: "ended (main (sample_world (Loaded (JList [])) (Some ?doc) [] (Status 200))) = Exit 0"
    "printed (effected (main (sample_world (Loaded (JList [])) (Some ?doc) [] (Status 200))))
      = [(Stdout, NoChanges)]"
    by code_simp+
  from keys same unwritten run show ?thesis
    by blast
qed

end
